theory Spec2Isabelle
  imports Main "HOL-Library.AList"
begin

text \<open>
  DiffDen watches a set of files and commits every change of a watched file to a git
  repository kept per project. This theory embeds its snapshot store (\<open>tracker.ts\<close>),
  its change watcher (\<open>watcher.ts\<close>) and the functions that name a project and its
  repository directory (\<open>utils.ts\<close>, \<open>config.ts\<close>), and proves properties of them.

  The program runs on libraries: Node's \<open>path\<close> and \<open>fs\<close>, simple-git on top of git,
  chokidar, and the timers of the event loop. Each is modelled as far as the program uses
  it, as a function on an explicit world. A string is a list of characters, one per
  code unit of the JavaScript string. The functions of the program are \<open>async\<close>; here a
  call runs from start to end as one step, so calls do not overlap.
\<close>

section \<open>Paths (the POSIX functions of Node's path module used by the program)\<close>

type_synonym path = string

text \<open>Splitting a path at every slash; a path without a slash is one segment.\<close>

fun split_slash :: "string \<Rightarrow> string list" where
  "split_slash [] = [[]]"
| "split_slash (c # cs) =
     (if c = CHR ''/'' then [] # split_slash cs
      else (case split_slash cs of [] \<Rightarrow> [[c]] | s # ss \<Rightarrow> (c # s) # ss))"

fun join_slash :: "string list \<Rightarrow> string" where
  "join_slash [] = []"
| "join_slash [s] = s"
| "join_slash (s # t # ss) = s @ ''/'' @ join_slash (t # ss)"

text \<open>
  \<open>normalizeString\<close> of Node: the segments are read left to right onto a stack (the
  second argument, newest first). Empty segments and \<open>.\<close> are dropped, \<open>..\<close> removes the
  segment before it, and where there is none it is kept only if \<open>allowAboveRoot\<close>.
\<close>

fun normalize_segs :: "bool \<Rightarrow> string list \<Rightarrow> string list \<Rightarrow> string list" where
  "normalize_segs allowAboveRoot acc [] = rev acc"
| "normalize_segs allowAboveRoot acc (s # ss) =
     (if s = [] \<or> s = ''.'' then normalize_segs allowAboveRoot acc ss
      else if s = ''..'' then
        (case acc of
           [] \<Rightarrow> normalize_segs allowAboveRoot (if allowAboveRoot then [''..''] else []) ss
         | a # as \<Rightarrow>
             if a = ''..'' then
               normalize_segs allowAboveRoot (if allowAboveRoot then ''..'' # acc else acc) ss
             else normalize_segs allowAboveRoot as ss)
      else normalize_segs allowAboveRoot (s # acc) ss)"

definition normalizeString :: "string \<Rightarrow> bool \<Rightarrow> string" where
  "normalizeString p allowAboveRoot = join_slash (normalize_segs allowAboveRoot [] (split_slash p))"

definition isAbsolute :: "path \<Rightarrow> bool" where
  "isAbsolute p = (case p of [] \<Rightarrow> False | c # _ \<Rightarrow> c = CHR ''/'')"

definition normalize :: "path \<Rightarrow> path" where
  "normalize p =
     (if p = [] then ''.''
      else
        let trailingSeparator = (last p = CHR ''/'');
            q = normalizeString p (\<not> isAbsolute p)
        in if q = [] then
             (if isAbsolute p then ''/'' else if trailingSeparator then ''./'' else ''.'')
           else
             (let q' = (if trailingSeparator then q @ ''/'' else q)
              in if isAbsolute p then ''/'' @ q' else q'))"

text \<open>\<open>join(...args)\<close>: the non-empty arguments, joined by slashes, normalised.\<close>

definition join :: "path list \<Rightarrow> path" where
  "join args =
     (let joined = join_slash (filter (\<lambda>a. a \<noteq> []) args)
      in if joined = [] then ''.'' else normalize joined)"


text \<open>\<open>basename(p)\<close>: the last non-empty segment, the empty string if there is none.\<close>

definition basename :: "path \<Rightarrow> string" where
  "basename p = (case filter (\<lambda>s. s \<noteq> []) (split_slash p) of [] \<Rightarrow> [] | ss \<Rightarrow> last ss)"

section \<open>The environment: file system, clock and git repositories\<close>

type_synonym content = string

text \<open>A regular file has its bytes and its permission to execute, the part of the file
  mode that git records. A tree maps the file names of a repository directory to files.\<close>

type_synonym fsfile = "content \<times> bool"

type_synonym tree = "(string \<times> fsfile) list"

datatype error =
    ENOENT | EACCES | EEXIST | ENOTDIR
  | NotARepository | NoCommitsYet | BadRevision | PathNotInTree | PathspecNoMatch | BadUsage
  | GitFailure nat

record commit_obj =
  c_hash :: string
  c_date :: nat
  c_message :: string
  c_body :: string
  c_tree :: tree

text \<open>
  A repository holds its configuration, its staging area and its commits, newest first.
  The program commits on one branch only, so the parent of a commit is the next one in
  the list. The working tree of the repository at \<open>repoPath\<close> is the files of the file
  system below \<open>repoPath\<close>.
\<close>

record repository =
  config :: "(string \<times> string) list"
  index :: tree
  commits :: "commit_obj list"

text \<open>
  The world the program runs in. \<open>fs_files\<close> holds the regular files (directories are
  not represented: a path that is not a file does not exist), \<open>fs_writable\<close> says where
  a write succeeds, \<open>repos\<close> holds the git repositories by directory, \<open>clock\<close> is the time
  in milliseconds. \<open>git_faults\<close> is what is wrong with git from outside the program: the
  error, if any, with which a git command fails in a directory whatever the state of the
  repository (git missing, a lock, a damaged object store).
\<close>

record world =
  homedir :: path
  cwd :: path
  clock :: nat
  fs_files :: "path \<rightharpoonup> fsfile"
  fs_writable :: "path \<Rightarrow> bool"
  repos :: "path \<rightharpoonup> repository"
  git_faults :: "path \<Rightarrow> string list \<Rightarrow> error option"

subsection \<open>Sequencing of calls that may throw\<close>

text \<open>
  A call returns the world it leaves and either the error it throws (\<open>Inl\<close>) or its
  value (\<open>Inr\<close>). \<open>and_then\<close> is sequencing (an error skips the rest), \<open>catch\<close> is
  \<open>try { ... } catch { ... }\<close>: the effects before the throw stay.
\<close>

definition and_then ::
  "world \<times> (error + 'a) \<Rightarrow> ('a \<Rightarrow> world \<Rightarrow> world \<times> (error + 'b)) \<Rightarrow> world \<times> (error + 'b)" where
  "and_then m f = (case m of (w, Inl e) \<Rightarrow> (w, Inl e) | (w, Inr x) \<Rightarrow> f x w)"

definition catch ::
  "world \<times> (error + 'a) \<Rightarrow> (world \<Rightarrow> world \<times> (error + 'a)) \<Rightarrow> world \<times> (error + 'a)" where
  "catch m h = (case m of (w, Inl e) \<Rightarrow> h w | (w, Inr x) \<Rightarrow> (w, Inr x))"

subsection \<open>File system calls\<close>

definition existsSync :: "world \<Rightarrow> path \<Rightarrow> bool" where
  "existsSync w p = (fs_files w p \<noteq> None)"

text \<open>\<open>writeFileSync(p, c)\<close> replaces the bytes of a file and keeps its mode; a file it
  creates is not executable.\<close>

definition writeFileSync :: "world \<Rightarrow> path \<Rightarrow> content \<Rightarrow> world \<times> (error + unit)" where
  "writeFileSync w p c =
     (if fs_writable w p then
        (w\<lparr>fs_files := (fs_files w)(p \<mapsto> (c, case fs_files w p of None \<Rightarrow> False | Some f \<Rightarrow> snd f))\<rparr>,
         Inr ())
      else (w, Inl EACCES))"

text \<open>\<open>copyFileSync(src, dest)\<close> gives the destination the bytes and the mode of the
  source.\<close>

definition copyFileSync :: "world \<Rightarrow> path \<Rightarrow> path \<Rightarrow> world \<times> (error + unit)" where
  "copyFileSync w src dest =
     (case fs_files w src of
        None \<Rightarrow> (w, Inl ENOENT)
      | Some f \<Rightarrow>
          if fs_writable w dest then (w\<lparr>fs_files := (fs_files w)(dest \<mapsto> f)\<rparr>, Inr ())
          else (w, Inl EACCES))"

text \<open>
  \<open>mkdirSync(p, { recursive: true })\<close> makes the missing directories on the way to \<open>p\<close>.
  It fails where a regular file is in the way: \<open>ENOTDIR\<close> for a file above \<open>p\<close>, \<open>EEXIST\<close>
  for a file at \<open>p\<close>. The directories it makes are not recorded.
\<close>

definition path_prefixes :: "path \<Rightarrow> path list" where
  "path_prefixes p =
     filter (\<lambda>a. a \<noteq> [])
       (map (\<lambda>i. join_slash (take i (split_slash p))) [1 ..< Suc (length (split_slash p))])"

definition mkdirSync :: "world \<Rightarrow> path \<Rightarrow> world \<times> (error + unit)" where
  "mkdirSync w p =
     (case find (\<lambda>a. fs_files w a \<noteq> None) (path_prefixes p) of
        None \<Rightarrow> (w, Inr ())
      | Some a \<Rightarrow> (w, Inl (if a = p then EEXIST else ENOTDIR)))"

subsection \<open>The git repository behind simple-git\<close>

definition head_tree :: "repository \<Rightarrow> tree" where
  "head_tree r = (case commits r of [] \<Rightarrow> [] | c # _ \<Rightarrow> c_tree c)"

text \<open>The paths whose content differs between two trees (added, modified or deleted).\<close>

definition changed_paths :: "tree \<Rightarrow> tree \<Rightarrow> string list" where
  "changed_paths old new =
     filter (\<lambda>f. map_of old f \<noteq> map_of new f) (remdups (map fst old @ map fst new))"

text \<open>
  The output of \<open>git diff\<close> is kept structured: one \<open>Change\<close> per differing path, with the
  file before and after (\<open>None\<close>: the path is absent on that side, so a change from
  \<open>None\<close> shows the whole content as additions). The empty list is the empty output.
\<close>

datatype change = Change (ch_path: string) (ch_old: "fsfile option") (ch_new: "fsfile option")

definition diff_trees :: "tree \<Rightarrow> tree \<Rightarrow> change list" where
  "diff_trees old new = map (\<lambda>f. Change f (map_of old f) (map_of new f)) (changed_paths old new)"

text \<open>The object name of git's empty tree (the SHA-1 of a tree without entries), and the
  name given to the \<open>n\<close>-th commit of a repository (git names a commit by the SHA-1 of its
  content; the model only needs a non-empty name that no other commit of the repository
  has).\<close>

definition empty_tree_name :: string where
  "empty_tree_name = ''4b825dc642cb6eb9a060e54bf8d69288fbee4904''"

definition commit_name :: "nat \<Rightarrow> string" where
  "commit_name n = CHR ''c'' # replicate n (CHR ''0'')"

text \<open>
  Revisions: a commit name, followed by any number of \<open>^\<close> (first parent). The result is
  the commit list from the named commit on, so its head is the commit and its tail the
  ancestors. Other revision syntax of git (branch names, abbreviations) is not used by the
  program and does not resolve here; a name that is no object of the repository does not
  resolve.
\<close>

definition rev_parse :: "commit_obj list \<Rightarrow> string \<Rightarrow> commit_obj list option" where
  "rev_parse cs s =
     (let carets = length (takeWhile (\<lambda>c. c = CHR ''^'') (rev s));
          name = rev (dropWhile (\<lambda>c. c = CHR ''^'') (rev s));
          found = drop carets (dropWhile (\<lambda>c. c_hash c \<noteq> name) cs)
      in if found = [] then None else Some found)"

definition tree_of_rev :: "commit_obj list \<Rightarrow> string \<Rightarrow> tree option" where
  "tree_of_rev cs s =
     (if s = empty_tree_name then Some []
      else (case rev_parse cs s of None \<Rightarrow> None | Some found \<Rightarrow> Some (c_tree (hd found))))"

text \<open>Line statistics of a change: lines (with their terminator) outside a longest
  common subsequence are insertions on the new side and deletions on the old side.\<close>

fun lines_of :: "string \<Rightarrow> string list" where
  "lines_of [] = []"
| "lines_of (c # cs) =
     (if c = CHR 0x0A then [c] # lines_of cs
      else (case lines_of cs of [] \<Rightarrow> [[c]] | l # ls \<Rightarrow> (c # l) # ls))"

fun lcs :: "'a list \<Rightarrow> 'a list \<Rightarrow> nat" where
  "lcs [] ys = 0"
| "lcs (x # xs) [] = 0"
| "lcs (x # xs) (y # ys) =
     (if x = y then Suc (lcs xs ys) else max (lcs xs (y # ys)) (lcs (x # xs) ys))"

record DiffResult =
  d_insertions :: nat
  d_deletions :: nat

definition numstat :: "change \<Rightarrow> nat \<times> nat" where
  "numstat ch =
     (let old = (case ch_old ch of None \<Rightarrow> [] | Some f \<Rightarrow> lines_of (fst f));
          new = (case ch_new ch of None \<Rightarrow> [] | Some f \<Rightarrow> lines_of (fst f));
          common = lcs old new
      in (length new - common, length old - common))"

definition diffstat :: "change list \<Rightarrow> DiffResult option" where
  "diffstat chs =
     (if chs = [] then None
      else Some \<lparr>d_insertions = sum_list (map (fst \<circ> numstat) chs),
                 d_deletions = sum_list (map (snd \<circ> numstat) chs)\<rparr>)"

text \<open>One entry of \<open>git log --stat\<close> as simple-git returns it.\<close>

record log_entry =
  e_hash :: string
  e_date :: nat
  e_message :: string
  e_body :: string
  e_diff :: "DiffResult option"

text \<open>
  The entries of a commit list, newest first. With a path only the commits that change
  that path are listed, and the statistics are those of the path (the repositories of the
  program never delete a file, so \<open>--follow\<close> finds no rename to follow).
\<close>

fun log_entries :: "string option \<Rightarrow> commit_obj list \<Rightarrow> log_entry list" where
  "log_entries fileName [] = []"
| "log_entries fileName (c # cs) =
     (let parent = (case cs of [] \<Rightarrow> [] | p # _ \<Rightarrow> c_tree p);
          chs = (case fileName of
                   None \<Rightarrow> diff_trees parent (c_tree c)
                 | Some f \<Rightarrow> filter (\<lambda>ch. ch_path ch = f) (diff_trees parent (c_tree c)));
          e = \<lparr>e_hash = c_hash c, e_date = c_date c, e_message = c_message c,
               e_body = c_body c, e_diff = diffstat chs\<rparr>
      in if fileName \<noteq> None \<and> chs = [] then log_entries fileName cs
         else e # log_entries fileName cs)"

subsection \<open>The simple-git calls of the program\<close>

text \<open>
  Every call runs a git command in the directory \<open>rp\<close> the handle was made for. It fails
  with the fault of the world for that command, if there is one (the command is written
  without the options simple-git adds); \<open>git_run\<close> is a command that needs a repository.
  git finds a repository at the directory of the handle only: the directories of the
  program lie in the work tree of no other repository.
\<close>

definition git_run ::
  "path \<Rightarrow> string list \<Rightarrow> world \<Rightarrow> (repository \<Rightarrow> world \<times> (error + 'a)) \<Rightarrow> world \<times> (error + 'a)" where
  "git_run rp cmd w k =
     (case git_faults w rp cmd of
        Some e \<Rightarrow> (w, Inl e)
      | None \<Rightarrow> (case repos w rp of None \<Rightarrow> (w, Inl NotARepository) | Some r \<Rightarrow> k r))"

definition git_checkIsRepo :: "path \<Rightarrow> world \<Rightarrow> world \<times> (error + bool)" where
  "git_checkIsRepo rp w =
     (case git_faults w rp [''rev-parse'', ''--is-inside-work-tree''] of
        Some e \<Rightarrow> (w, Inl e)
      | None \<Rightarrow> (w, Inr (repos w rp \<noteq> None)))"

definition git_init :: "path \<Rightarrow> world \<Rightarrow> world \<times> (error + unit)" where
  "git_init rp w =
     (case git_faults w rp [''init''] of
        Some e \<Rightarrow> (w, Inl e)
      | None \<Rightarrow>
          (case repos w rp of
             None \<Rightarrow> (w\<lparr>repos := (repos w)(rp \<mapsto> \<lparr>config = [], index = [], commits = []\<rparr>)\<rparr>, Inr ())
           | Some r \<Rightarrow> (w, Inr ())))"

definition git_addConfig :: "path \<Rightarrow> string \<Rightarrow> string \<Rightarrow> world \<Rightarrow> world \<times> (error + unit)" where
  "git_addConfig rp k v w =
     git_run rp [''config'', ''--local'', k, v] w (\<lambda>r.
       (w\<lparr>repos := (repos w)(rp \<mapsto> r\<lparr>config := AList.update k v (config r)\<rparr>)\<rparr>, Inr ()))"

text \<open>\<open>git add fileName\<close>: the file of the working tree is staged, with its mode.\<close>

definition git_add :: "path \<Rightarrow> string \<Rightarrow> world \<Rightarrow> world \<times> (error + unit)" where
  "git_add rp fileName w =
     git_run rp [''add'', fileName] w (\<lambda>r.
       case fs_files w (join [rp, fileName]) of
         None \<Rightarrow> (w, Inl PathspecNoMatch)
       | Some f \<Rightarrow>
           (w\<lparr>repos := (repos w)(rp \<mapsto> r\<lparr>index := AList.update fileName f (index r)\<rparr>)\<rparr>,
            Inr ()))"

text \<open>\<open>status.staged\<close>: the paths whose staged file differs from the last commit.\<close>

record StatusResult =
  staged :: "string list"

definition git_status :: "path \<Rightarrow> world \<Rightarrow> world \<times> (error + StatusResult)" where
  "git_status rp w =
     git_run rp [''status''] w (\<lambda>r.
       (w, Inr \<lparr>staged = changed_paths (head_tree r) (index r)\<rparr>))"

text \<open>\<open>git commit -m message\<close>: with nothing staged no commit is made and the \<open>commit\<close>
  field of the result is empty; otherwise the staging area becomes the newest commit.\<close>

record CommitResult =
  commit :: string

definition git_commit :: "path \<Rightarrow> string \<Rightarrow> world \<Rightarrow> world \<times> (error + CommitResult)" where
  "git_commit rp message w =
     git_run rp [''commit'', ''-m'', message] w (\<lambda>r.
       if changed_paths (head_tree r) (index r) = [] then (w, Inr \<lparr>commit = []\<rparr>)
       else
         (let c = \<lparr>c_hash = commit_name (length (commits r)), c_date = clock w,
                   c_message = message, c_body = [], c_tree = index r\<rparr>
          in (w\<lparr>repos := (repos w)(rp \<mapsto> r\<lparr>commits := c # commits r\<rparr>)\<rparr>,
              Inr \<lparr>commit = c_hash c\<rparr>)))"

text \<open>\<open>git log\<close> with the two argument lists the program builds. A repository without
  commits makes \<open>git log\<close> fail.\<close>

definition git_log :: "path \<Rightarrow> string list \<Rightarrow> world \<Rightarrow> world \<times> (error + log_entry list)" where
  "git_log rp args w =
     git_run rp (''log'' # args) w (\<lambda>r.
       if commits r = [] then (w, Inl NoCommitsYet)
       else if args = [''--stat'', ''--stat-width=200''] then
         (w, Inr (log_entries None (commits r)))
       else
         (case args of
            [a, b, c, d, f] \<Rightarrow>
              if [a, b, c, d] = [''--stat'', ''--stat-width=200'', ''--follow'', ''--'']
              then (w, Inr (log_entries (Some f) (commits r)))
              else (w, Inl BadUsage)
          | _ \<Rightarrow> (w, Inl BadUsage)))"

text \<open>\<open>git diff a b\<close> and \<open>git diff a b -- fileName\<close>.\<close>

definition git_diff :: "path \<Rightarrow> string list \<Rightarrow> world \<Rightarrow> world \<times> (error + change list)" where
  "git_diff rp args w =
     git_run rp (''diff'' # args) w (\<lambda>r.
       case args of
         [a, b] \<Rightarrow>
           (case (tree_of_rev (commits r) a, tree_of_rev (commits r) b) of
              (Some ta, Some tb) \<Rightarrow> (w, Inr (diff_trees ta tb))
            | _ \<Rightarrow> (w, Inl BadRevision))
       | [a, b, dd, f] \<Rightarrow>
           if dd \<noteq> ''--'' then (w, Inl BadUsage)
           else
             (case (tree_of_rev (commits r) a, tree_of_rev (commits r) b) of
                (Some ta, Some tb) \<Rightarrow>
                  (w, Inr (filter (\<lambda>ch. ch_path ch = f) (diff_trees ta tb)))
              | _ \<Rightarrow> (w, Inl BadRevision))
       | _ \<Rightarrow> (w, Inl BadUsage))"

text \<open>\<open>git show rev:path\<close>: the argument is cut at its first colon; the result is the
  bytes of the file.\<close>

definition git_show :: "path \<Rightarrow> string list \<Rightarrow> world \<Rightarrow> world \<times> (error + content)" where
  "git_show rp args w =
     git_run rp (''show'' # args) w (\<lambda>r.
       case args of
         [spec] \<Rightarrow>
           (let revision = takeWhile (\<lambda>c. c \<noteq> CHR '':'') spec;
                file = drop 1 (dropWhile (\<lambda>c. c \<noteq> CHR '':'') spec)
            in case rev_parse (commits r) revision of
                 None \<Rightarrow> (w, Inl BadRevision)
               | Some found \<Rightarrow>
                   (case map_of (c_tree (hd found)) file of
                      None \<Rightarrow> (w, Inl PathNotInTree)
                    | Some f \<Rightarrow> (w, Inr (fst f))))
       | _ \<Rightarrow> (w, Inl BadUsage))"

section \<open>utils.ts and config.ts: slugs and repository directories\<close>

text \<open>\<open>DATA_DIR\<close>, \<open>REPOS_DIR\<close> and \<open>projectSlug\<close> are in \<open>src/src/cli.ts\<close> (its second
  part, the module \<open>utils.ts\<close>), \<open>getRepoPath\<close> is in \<open>src/src/config.ts\<close>. The home
  directory and the working directory of the process are part of the world.\<close>

definition DATA_DIR :: "world \<Rightarrow> path" where
  "DATA_DIR w = join [homedir w, ''.diffden'']"

definition REPOS_DIR :: "world \<Rightarrow> path" where
  "REPOS_DIR w = join [DATA_DIR w, ''repos'']"



definition getRepoPath :: "world \<Rightarrow> string \<Rightarrow> path" where
  "getRepoPath w slug = REPOS_DIR w @ ''/'' @ slug"

section \<open>tracker.ts: the snapshot store\<close>

text \<open>The module is the file \<open>src/unnamed/part_007\<close>.\<close>

record SnapshotInfo =
  hash :: string
  date :: nat
  message :: string
  insertions :: nat
  deletions :: nat

definition ensureRepoDir :: "string \<Rightarrow> world \<Rightarrow> world \<times> (error + path)" where
  "ensureRepoDir slug w =
     (let repoPath = getRepoPath w slug
      in and_then (mkdirSync w repoPath) (\<lambda>_ w. (w, Inr repoPath)))"

text \<open>The handle \<open>simpleGit(repoPath)\<close> is the directory it works in.\<close>

definition getGit :: "string \<Rightarrow> world \<Rightarrow> world \<times> (error + path)" where
  "getGit slug w =
     and_then (ensureRepoDir slug w) (\<lambda>repoPath w.
       let git = repoPath in
       and_then (git_checkIsRepo git w) (\<lambda>isRepo w.
         if \<not> isRepo then
           and_then (git_init git w) (\<lambda>_ w.
           and_then (git_addConfig git ''user.name'' ''track-scratchpad'' w) (\<lambda>_ w.
           and_then (git_addConfig git ''user.email'' ''track-scratchpad@local'' w) (\<lambda>_ w.
             (w, Inr git))))
         else (w, Inr git)))"

definition snapshot :: "string \<Rightarrow> path \<Rightarrow> world \<Rightarrow> world \<times> (error + string option)" where
  "snapshot slug sourceFilePath w =
     and_then (getGit slug w) (\<lambda>git w.
       let repoPath = getRepoPath w slug;
           fileName = basename sourceFilePath;
           destPath = join [repoPath, fileName]
       in if \<not> existsSync w sourceFilePath then (w, Inr None)
          else
            and_then (copyFileSync w sourceFilePath destPath) (\<lambda>_ w.
            and_then (git_add git fileName w) (\<lambda>_ w.
            and_then (git_status git w) (\<lambda>status w.
              if length (staged status) = 0 then (w, Inr None)
              else
                and_then (git_commit git (''['' @ fileName @ ''] auto-snapshot'') w) (\<lambda>result w.
                  (w, Inr (if commit result = [] then None else Some (commit result))))))))"

text \<open>An optional string argument is used when it is given and not empty.\<close>

definition given :: "string option \<Rightarrow> bool" where
  "given fileName = (case fileName of None \<Rightarrow> False | Some f \<Rightarrow> f \<noteq> [])"

text \<open>
  The fallback of \<open>getLog\<close>: \<open>body.match(/(\d+) insertion.*?(\d+) deletion/)\<close>. The
  match starts at the leftmost position where all of it succeeds; \<open>\d+\<close> takes the whole
  run of digits, \<open>.*?\<close> skips as few characters as possible and no line break.
\<close>

definition is_digit :: "char \<Rightarrow> bool" where
  "is_digit c = (c \<in> set ''0123456789'')"

definition starts_with :: "string \<Rightarrow> string \<Rightarrow> bool" where
  "starts_with s pre = (take (length pre) s = pre)"

definition digits_then :: "string \<Rightarrow> string \<Rightarrow> (string \<times> string) option" where
  "digits_then word s =
     (let d = takeWhile is_digit s; r = dropWhile is_digit s
      in if d \<noteq> [] \<and> starts_with r word then Some (d, drop (length word) r) else None)"

fun lazy_deletion :: "string \<Rightarrow> string option" where
  "lazy_deletion [] = None"
| "lazy_deletion (c # cs) =
     (case digits_then '' deletion'' (c # cs) of
        Some (d, _) \<Rightarrow> Some d
      | None \<Rightarrow> if c = CHR 0x0A \<or> c = CHR 0x0D then None else lazy_deletion cs)"

fun statMatch :: "string \<Rightarrow> (string \<times> string) option" where
  "statMatch [] = None"
| "statMatch (c # cs) =
     (case digits_then '' insertion'' (c # cs) of
        Some (d1, r) \<Rightarrow>
          (case lazy_deletion r of Some d2 \<Rightarrow> Some (d1, d2) | None \<Rightarrow> statMatch cs)
      | None \<Rightarrow> statMatch cs)"

definition parseInt :: "string \<Rightarrow> nat" where
  "parseInt ds = foldl (\<lambda>n c. 10 * n + (of_char c - 48)) 0 ds"

definition snapshot_info :: "log_entry \<Rightarrow> SnapshotInfo" where
  "snapshot_info entry =
     (let insertions0 = (case e_diff entry of None \<Rightarrow> 0 | Some d \<Rightarrow> d_insertions d);
          deletions0 = (case e_diff entry of None \<Rightarrow> 0 | Some d \<Rightarrow> d_deletions d);
          statMatch0 =
            (if insertions0 = 0 \<and> deletions0 = 0 \<and> e_body entry \<noteq> []
             then statMatch (e_body entry) else None)
      in \<lparr>hash = e_hash entry, date = e_date entry, message = e_message entry,
          insertions = (case statMatch0 of None \<Rightarrow> insertions0 | Some (a, b) \<Rightarrow> parseInt a),
          deletions = (case statMatch0 of None \<Rightarrow> deletions0 | Some (a, b) \<Rightarrow> parseInt b)\<rparr>)"

definition getLog :: "string \<Rightarrow> string option \<Rightarrow> world \<Rightarrow> world \<times> (error + SnapshotInfo list)" where
  "getLog slug fileName w =
     and_then (getGit slug w) (\<lambda>git w.
       catch
         (let args = [''--stat'', ''--stat-width=200''] @
                     (if given fileName then [''--follow'', ''--'', the fileName] else [])
          in and_then (git_log git args w) (\<lambda>log w. (w, Inr (map snapshot_info log))))
         (\<lambda>w. (w, Inr [])))"

text \<open>What \<open>getDiff\<close> returns: the output of \<open>git diff\<close>, or a fixed text. The first
  argument of the second \<open>git diff\<close> is the constant of the source.\<close>

datatype diff_text = Patch "change list" | Literal string

definition getDiff :: "string \<Rightarrow> string \<Rightarrow> string option \<Rightarrow> world \<Rightarrow> world \<times> (error + diff_text)" where
  "getDiff slug hash' fileName w =
     and_then (getGit slug w) (\<lambda>git w.
       catch
         (let args = [hash' @ ''^'', hash'] @ (if given fileName then [''--'', the fileName] else [])
          in and_then (git_diff git args w) (\<lambda>diff w.
               (w, Inr (if diff = [] then Literal ''(no diff available)'' else Patch diff))))
         (\<lambda>w.
            catch
              (and_then (git_diff git [''4b825dc642cb6eb9a060e54bf899d8b2da2e7862'', hash'] w) (\<lambda>diff w.
                 (w, Inr (if diff = [] then Literal ''(initial snapshot)'' else Patch diff))))
              (\<lambda>w. (w, Inr (Literal ''(no diff available)'')))))"

definition getContent :: "string \<Rightarrow> string \<Rightarrow> string \<Rightarrow> world \<Rightarrow> world \<times> (error + content)" where
  "getContent slug hash' fileName w =
     and_then (getGit slug w) (\<lambda>git w.
       catch (git_show git [hash' @ '':'' @ fileName] w)
             (\<lambda>w. (w, Inr ''(content not available)'')))"

definition restore :: "string \<Rightarrow> string \<Rightarrow> string \<Rightarrow> path \<Rightarrow> world \<Rightarrow> world \<times> (error + bool)" where
  "restore slug hash' fileName destPath w =
     catch
       (and_then (getContent slug hash' fileName w) (\<lambda>content w.
          if content = ''(content not available)'' then (w, Inr False)
          else and_then (writeFileSync w destPath content) (\<lambda>_ w. (w, Inr True))))
       (\<lambda>w. (w, Inr False))"

definition getSnapshotCount :: "string \<Rightarrow> string option \<Rightarrow> world \<Rightarrow> world \<times> (error + nat)" where
  "getSnapshotCount slug fileName w =
     and_then (getLog slug fileName w) (\<lambda>log w. (w, Inr (length log)))"

definition getLatestSnapshot ::
  "string \<Rightarrow> string option \<Rightarrow> world \<Rightarrow> world \<times> (error + SnapshotInfo option)" where
  "getLatestSnapshot slug fileName w =
     and_then (getLog slug fileName w) (\<lambda>log w.
       (w, Inr (case log of [] \<Rightarrow> None | x # _ \<Rightarrow> Some x)))"

section \<open>watcher.ts: the change watcher\<close>

text \<open>The module is the file \<open>src/src/watcher.ts\<close>. chokidar is asked to report a
  change once the file has been stable for a while; a \<open>change\<close> event below is the event
  chokidar emits to the listener.\<close>

record ProjectConfig =
  slug :: string
  dir :: path
  files :: "string list"

text \<open>The entry of the module's table; \<open>watcher\<close> is the handle of the chokidar watcher,
  \<open>entry_slug\<close> is the field \<open>slug\<close> of the source (\<open>ProjectConfig\<close> has a field of that
  name).\<close>

record WatcherEntry =
  watcher :: nat
  filePath :: path
  entry_slug :: string

text \<open>
  An open chokidar watcher with the closure of its \<open>change\<close> listener: the variables
  \<open>slug\<close>, \<open>fileName\<close>, \<open>filePath\<close> of the loop body and its own \<open>debounceTimer\<close>.
\<close>

record FSWatcher =
  fw_id :: nat
  l_slug :: string
  l_fileName :: string
  l_filePath :: path
  debounceTimer :: "nat option"

text \<open>A timer of the event loop that has not fired, with the closure of its callback.\<close>

record timer =
  t_id :: nat
  t_due :: nat
  t_slug :: string
  t_fileName :: string
  t_filePath :: path

text \<open>
  The state of the process: the world, the module variables \<open>watchers\<close> (a \<open>Map\<close>, in
  insertion order) and \<open>onSnapshotCallback\<close> (a callback is known by a number), the open
  chokidar watchers, the pending timers, the next unused handle, and the calls the
  callback has received.
\<close>

record state =
  world :: world
  watchers :: "(string \<times> WatcherEntry) list"
  onSnapshotCallback :: "nat option"
  fswatchers :: "FSWatcher list"
  timers :: "timer list"
  next_handle :: nat
  notified :: "(nat \<times> string \<times> string) list"

definition DEBOUNCE_MS :: nat where
  "DEBOUNCE_MS = 500"

definition watch_key :: "string \<Rightarrow> string \<Rightarrow> string" where
  "watch_key sl fileName = sl @ '':'' @ fileName"

definition has :: "(string \<times> WatcherEntry) list \<Rightarrow> string \<Rightarrow> bool" where
  "has m key = (map_of m key \<noteq> None)"

definition ends_with :: "string \<Rightarrow> string \<Rightarrow> bool" where
  "ends_with s suf = (take (length suf) (rev s) = rev suf)"

definition onSnapshot :: "nat \<Rightarrow> state \<Rightarrow> state" where
  "onSnapshot cb s = s\<lparr>onSnapshotCallback := Some cb\<rparr>"

text \<open>The body of the loop of \<open>startWatching\<close> for one file name.\<close>

definition start_file :: "string \<Rightarrow> path \<Rightarrow> string \<Rightarrow> state \<Rightarrow> state" where
  "start_file sl d fileName s =
     (let filePath = join [d, fileName];
          key = watch_key sl fileName
      in if has (watchers s) key then s
         else
           (let w = \<lparr>fw_id = next_handle s, l_slug = sl, l_fileName = fileName,
                      l_filePath = filePath, debounceTimer = None\<rparr>
            in s\<lparr>fswatchers := fswatchers s @ [w],
                 watchers := AList.update key
                   \<lparr>watcher = fw_id w, filePath = filePath, entry_slug = sl\<rparr> (watchers s),
                 next_handle := Suc (next_handle s)\<rparr>))"

definition startWatching :: "ProjectConfig \<Rightarrow> state \<Rightarrow> state" where
  "startWatching project s =
     foldl (\<lambda>s fileName. start_file (slug project) (dir project) fileName s) s (files project)"

text \<open>\<open>clearTimeout\<close> and \<open>setTimeout\<close> of the event loop.\<close>

definition clearTimeout :: "nat \<Rightarrow> state \<Rightarrow> state" where
  "clearTimeout h s = s\<lparr>timers := filter (\<lambda>tm. t_id tm \<noteq> h) (timers s)\<rparr>"

text \<open>The \<open>change\<close> listener of the watcher with handle \<open>h\<close>; a closed watcher emits nothing.\<close>

definition on_change :: "nat \<Rightarrow> state \<Rightarrow> state" where
  "on_change h s =
     (case find (\<lambda>fw. fw_id fw = h) (fswatchers s) of
        None \<Rightarrow> s
      | Some fw \<Rightarrow>
          (let s1 = (case debounceTimer fw of None \<Rightarrow> s | Some old \<Rightarrow> clearTimeout old s);
               tm = \<lparr>t_id = next_handle s1, t_due = clock (world s1) + DEBOUNCE_MS,
                     t_slug = l_slug fw, t_fileName = l_fileName fw, t_filePath = l_filePath fw\<rparr>
           in s1\<lparr>timers := timers s1 @ [tm],
                 fswatchers := map (\<lambda>x. if fw_id x = h then x\<lparr>debounceTimer := Some (t_id tm)\<rparr> else x)
                                   (fswatchers s1),
                 next_handle := Suc (next_handle s1)\<rparr>))"

text \<open>
  The callback of the timer: the debounce settle. A rejected \<open>snapshot\<close> ends the callback.
\<close>

definition settle :: "timer \<Rightarrow> state \<Rightarrow> state" where
  "settle tm s =
     (case snapshot (t_slug tm) (t_filePath tm) (world s) of
        (w, Inl e) \<Rightarrow> s\<lparr>world := w\<rparr>
      | (w, Inr hash') \<Rightarrow>
          (case (hash', onSnapshotCallback s) of
             (Some h, Some cb) \<Rightarrow>
               if h \<noteq> [] then
                 s\<lparr>world := w, notified := notified s @ [(cb, t_slug tm, t_fileName tm)]\<rparr>
               else s\<lparr>world := w\<rparr>
           | _ \<Rightarrow> s\<lparr>world := w\<rparr>))"

text \<open>
  Time passes: the timers due by then fire in the order of their due time, each at its
  due time. A callback starts no timer, so the timers to fire are known at the start.
\<close>

definition fire :: "timer \<Rightarrow> state \<Rightarrow> state" where
  "fire tm s =
     (if tm \<in> set (timers s) then
        settle tm (s\<lparr>timers := filter (\<lambda>x. t_id x \<noteq> t_id tm) (timers s),
                     world := (world s)\<lparr>clock := max (clock (world s)) (t_due tm)\<rparr>\<rparr>)
      else s)"

definition advance :: "nat \<Rightarrow> state \<Rightarrow> state" where
  "advance ms s =
     (let t = clock (world s) + ms;
          due = sort_key t_due (filter (\<lambda>tm. t_due tm \<le> t) (timers s));
          s1 = foldl (\<lambda>s tm. fire tm s) s due
      in s1\<lparr>world := (world s1)\<lparr>clock := t\<rparr>\<rparr>)"

text \<open>\<open>watcher.close()\<close>.\<close>

definition close :: "nat \<Rightarrow> state \<Rightarrow> state" where
  "close h s = s\<lparr>fswatchers := filter (\<lambda>fw. fw_id fw \<noteq> h) (fswatchers s)\<rparr>"

text \<open>The loops of \<open>stopWatching\<close> and \<open>stopAll\<close> run over the entries of the table; an
  entry deleted in the body is the one being visited.\<close>

definition stop_entry :: "string \<Rightarrow> string option \<Rightarrow> state \<Rightarrow> string \<times> WatcherEntry \<Rightarrow> state" where
  "stop_entry sl fileName s ke =
     (case ke of (key, entry) \<Rightarrow>
        if entry_slug entry = sl \<and> (\<not> given fileName \<or> ends_with key ('':'' @ the fileName))
        then (let s1 = close (watcher entry) s in s1\<lparr>watchers := AList.delete key (watchers s1)\<rparr>)
        else s)"

definition stopWatching :: "string \<Rightarrow> string option \<Rightarrow> state \<Rightarrow> state" where
  "stopWatching sl fileName s = foldl (stop_entry sl fileName) s (watchers s)"

definition stopAll :: "state \<Rightarrow> state" where
  "stopAll s =
     (let s1 = foldl (\<lambda>s ke. close (watcher (snd ke)) s) s (watchers s)
      in s1\<lparr>watchers := []\<rparr>)"

definition isWatching :: "string \<Rightarrow> string \<Rightarrow> state \<Rightarrow> bool" where
  "isWatching sl fileName s = has (watchers s) (watch_key sl fileName)"

text \<open>
  What happens to the process: the calls of the module, the events of the environment
  (a \<open>change\<close> of a watcher, time passing, a file written, given another mode or removed
  from outside) and the
  calls of the snapshot store that the user interface makes. Each is one step.
\<close>

datatype event =
    StartWatching ProjectConfig
  | StopWatching string "string option"
  | StopAll
  | OnSnapshot nat
  | ChangeEvent nat
  | Advance nat
  | FileWritten path "fsfile option"
  | CallSnapshot string path
  | CallRestore string string string path

definition step :: "event \<Rightarrow> state \<Rightarrow> state" where
  "step e s =
     (case e of
        StartWatching project \<Rightarrow> startWatching project s
      | StopWatching sl fileName \<Rightarrow> stopWatching sl fileName s
      | StopAll \<Rightarrow> stopAll s
      | OnSnapshot cb \<Rightarrow> onSnapshot cb s
      | ChangeEvent h \<Rightarrow> on_change h s
      | Advance ms \<Rightarrow> advance ms s
      | FileWritten p f \<Rightarrow> s\<lparr>world := (world s)\<lparr>fs_files := (fs_files (world s))(p := f)\<rparr>\<rparr>
      | CallSnapshot sl p \<Rightarrow> s\<lparr>world := fst (snapshot sl p (world s))\<rparr>
      | CallRestore sl h f d \<Rightarrow> s\<lparr>world := fst (restore sl h f d (world s))\<rparr>)"

definition initial :: "world \<Rightarrow> state" where
  "initial w = \<lparr>world = w, watchers = [], onSnapshotCallback = None, fswatchers = [],
                timers = [], next_handle = 0, notified = []\<rparr>"

definition run :: "event list \<Rightarrow> state \<Rightarrow> state" where
  "run es s = foldl (\<lambda>s e. step e s) s es"

inductive reachable :: "state \<Rightarrow> bool" where
  reachable_initial: "reachable (initial w)"
| reachable_step: "reachable s \<Longrightarrow> reachable (step e s)"

text \<open>The history of a project: the commits of its repository, newest first.\<close>

definition history :: "world \<Rightarrow> string \<Rightarrow> commit_obj list" where
  "history w sl = (case repos w (getRepoPath w sl) of None \<Rightarrow> [] | Some r \<Rightarrow> commits r)"

text \<open>The commits in which a file changes: the revisions of the file, newest first.\<close>

fun file_history :: "string \<Rightarrow> commit_obj list \<Rightarrow> commit_obj list" where
  "file_history f [] = []"
| "file_history f (c # cs) =
     (if map_of (c_tree c) f \<noteq> (case cs of [] \<Rightarrow> None | p # _ \<Rightarrow> map_of (c_tree p) f)
      then c # file_history f cs else file_history f cs)"

subsection \<open>Concrete worlds\<close>

text \<open>A world with one file \<open>/p/n\<close>, not executable, and no repository; the world after
  the first snapshot of that file; that world after \<open>chmod +x\<close> of the file; a world in
  which the file holds the text that \<open>getContent\<close> returns on failure, after its snapshot;
  a world in which \<open>/p/ro\<close> cannot be written; the world after a second snapshot of
  changed bytes.\<close>

definition home_world :: world where
  "home_world = \<lparr>homedir = ''/h'', cwd = ''/'', clock = 0,
                 fs_files = [''/p/n'' \<mapsto> (''a'', False)], fs_writable = (\<lambda>_. True),
                 repos = Map.empty, git_faults = (\<lambda>_ _. None)\<rparr>"

definition snapshot_world :: world where
  "snapshot_world = fst (snapshot ''p'' ''/p/n'' home_world)"


definition sentinel_world :: world where
  "sentinel_world =
     fst (snapshot ''p'' ''/p/n''
            (home_world\<lparr>fs_files := [''/p/n'' \<mapsto> (''(content not available)'', False)]\<rparr>))"

definition readonly_world :: world where
  "readonly_world = snapshot_world\<lparr>fs_writable := (\<lambda>p. p \<noteq> ''/p/ro'')\<rparr>"

definition two_revisions_world :: world where
  "two_revisions_world =
     fst (snapshot ''p'' ''/p/n''
            (snapshot_world\<lparr>fs_files := [''/p/n'' \<mapsto> (''ab'', False)], clock := 60\<rparr>))"

text \<open>Worlds in which the repository cannot be opened or read: a regular file where the
  directory of the repositories should be; a git whose \<open>rev-parse\<close> fails; and, after
  the first snapshot, a git whose \<open>add\<close> fails and a git whose \<open>log\<close> fails.\<close>

definition blocked_world :: world where
  "blocked_world = home_world\<lparr>fs_files := (fs_files home_world)(''/h/.diffden/repos'' \<mapsto> (''x'', False))\<rparr>"

definition faulty_world :: world where
  "faulty_world =
     home_world\<lparr>git_faults :=
       (\<lambda>rp cmd. if cmd = [''rev-parse'', ''--is-inside-work-tree''] then Some (GitFailure 128)
                  else None)\<rparr>"


definition log_fault_world :: world where
  "log_fault_world =
     snapshot_world\<lparr>git_faults :=
       (\<lambda>rp cmd. if take 1 cmd = [''log''] then Some (GitFailure 128) else None)\<rparr>"

definition note_timer :: timer where
  "note_timer = \<lparr>t_id = 1, t_due = 500, t_slug = ''p'', t_fileName = ''n'', t_filePath = ''/p/n''\<rparr>"

definition note_project :: ProjectConfig where
  "note_project = \<lparr>slug = ''p'', dir = ''/p'', files = [''n'', ''m'']\<rparr>"

subsection \<open>Notions used in the statements and proofs\<close>

text \<open>How the table of the module and the open chokidar watchers belong together: the
  keys of the table are distinct, the handles of the open watchers are distinct and
  used, and every open watcher is the one its key's entry names.\<close>

definition watch_inv :: "state \<Rightarrow> bool" where
  "watch_inv s =
     (distinct (map fst (watchers s)) \<and> distinct (map fw_id (fswatchers s)) \<and>
      (\<forall>fw \<in> set (fswatchers s).
         fw_id fw < next_handle s \<and>
         map_of (watchers s) (watch_key (l_slug fw) (l_fileName fw)) =
           Some \<lparr>watcher = fw_id fw, filePath = l_filePath fw, entry_slug = l_slug fw\<rparr>))"

text \<open>The pending timers have distinct handles, all of them used.\<close>

definition timer_inv :: "state \<Rightarrow> bool" where
  "timer_inv s =
     (distinct (map t_id (timers s)) \<and> (\<forall>tm \<in> set (timers s). t_id tm < next_handle s))"

text \<open>An event that starts a watch of the file \<open>fileName\<close> for the slug \<open>sl\<close>.\<close>

definition starts :: "string \<Rightarrow> string \<Rightarrow> event \<Rightarrow> bool" where
  "starts sl fileName e =
     (case e of
        StartWatching project \<Rightarrow> slug project = sl \<and> fileName \<in> set (files project)
      | _ \<Rightarrow> False)"

text \<open>The condition under which the loop of \<open>stopWatching\<close> stops an entry.\<close>

definition stops :: "string \<Rightarrow> string option \<Rightarrow> string \<times> WatcherEntry \<Rightarrow> bool" where
  "stops sl fileName ke =
     (entry_slug (snd ke) = sl \<and> (\<not> given fileName \<or> ends_with (fst ke) ('':'' @ the fileName)))"

text \<open>The process after it started watching \<open>/p/n\<close> and one \<open>change\<close> arrived, so that
  the debounce timer is armed; and after \<open>stopWatching\<close> was then called for the file.\<close>

definition armed_state :: state where
  "armed_state = step (ChangeEvent 0) (step (StartWatching note_project) (initial home_world))"

definition stopped_state :: state where
  "stopped_state = stopWatching ''p'' (Some ''n'') armed_state"

text \<open>The timer that is armed then; and a process in which the file \<open>b:c\<close> of the
  project \<open>a\<close> is watched under the key \<open>a:b:c\<close>, which is also the key of the file
  \<open>c\<close> of the project \<open>a:b\<close>.\<close>

definition armed_timer :: timer where
  "armed_timer = \<lparr>t_id = 2, t_due = 500, t_slug = ''p'', t_fileName = ''n'', t_filePath = ''/p/n''\<rparr>"

definition shared_key_state :: state where
  "shared_key_state =
     step (StartWatching \<lparr>slug = ''a:b'', dir = ''/q'', files = [''c'']\<rparr>)
       (step (StartWatching \<lparr>slug = ''a'', dir = ''/p'', files = [''b:c'']\<rparr>) (initial home_world))"

section \<open>Properties of the snapshot store\<close>

subsection \<open>Opening a repository and taking a snapshot, in closed form\<close>

lemma getRepoPath_update [simp]:
  "getRepoPath (w\<lparr>repos := r\<rparr>) = getRepoPath w"
  "getRepoPath (w\<lparr>fs_files := f\<rparr>) = getRepoPath w"
  "getRepoPath (w\<lparr>clock := t\<rparr>) = getRepoPath w"
  by (simp_all add: getRepoPath_def REPOS_DIR_def DATA_DIR_def fun_eq_iff)



lemma and_then_Inr [simp]: "and_then (w, Inr x) f = f x w"
  by (simp add: and_then_def)

lemma and_then_Inl [simp]: "and_then (w, Inl e) f = (w, Inl e)"
  by (simp add: and_then_def)

lemma mkdirSync_world [simp]: "fst (mkdirSync w p) = w"
  by (simp add: mkdirSync_def split: option.splits)

lemma getGit_eq:
  "getGit sl w =
     (let rp = getRepoPath w sl;
          w1 = w\<lparr>repos := (repos w)(rp \<mapsto> \<lparr>config = [], index = [], commits = []\<rparr>)\<rparr>;
          w2 = w\<lparr>repos := (repos w)(rp \<mapsto>
                  \<lparr>config = [(''user.name'', ''track-scratchpad'')], index = [], commits = []\<rparr>)\<rparr>;
          w3 = w\<lparr>repos := (repos w)(rp \<mapsto>
                  \<lparr>config = [(''user.name'', ''track-scratchpad''),
                             (''user.email'', ''track-scratchpad@local'')],
                    index = [], commits = []\<rparr>)\<rparr>
      in case snd (mkdirSync w rp) of
           Inl e \<Rightarrow> (w, Inl e)
         | Inr u \<Rightarrow>
             (case git_faults w rp [''rev-parse'', ''--is-inside-work-tree''] of
                Some e \<Rightarrow> (w, Inl e)
              | None \<Rightarrow>
                  if repos w rp \<noteq> None then (w, Inr rp)
                  else
                    (case git_faults w rp [''init''] of
                       Some e \<Rightarrow> (w, Inl e)
                     | None \<Rightarrow>
                         (case git_faults w rp [''config'', ''--local'', ''user.name'', ''track-scratchpad''] of
                            Some e \<Rightarrow> (w1, Inl e)
                          | None \<Rightarrow>
                              (case git_faults w rp
                                      [''config'', ''--local'', ''user.email'', ''track-scratchpad@local''] of
                                 Some e \<Rightarrow> (w2, Inl e)
                               | None \<Rightarrow> (w3, Inr rp))))))"
proof -
  obtain r where m: "mkdirSync w (getRepoPath w sl) = (w, r)"
    by (metis mkdirSync_world prod.collapse)
  show ?thesis
    by (cases r)
       (auto simp add: getGit_def ensureRepoDir_def m git_checkIsRepo_def git_init_def
          git_addConfig_def git_run_def Let_def split: option.splits)
qed

lemma getGit_env [simp]:
  "homedir (fst (getGit sl w)) = homedir w"
  "cwd (fst (getGit sl w)) = cwd w"
  "clock (fst (getGit sl w)) = clock w"
  "fs_files (fst (getGit sl w)) = fs_files w"
  "fs_writable (fst (getGit sl w)) = fs_writable w"
  "git_faults (fst (getGit sl w)) = git_faults w"
  "getRepoPath (fst (getGit sl w)) = getRepoPath w"
  by (simp_all add: getGit_eq Let_def split: sum.splits option.splits)

lemma getGit_Inr:
  assumes "snd (getGit sl w) = Inr g"
  shows "g = getRepoPath w sl" and "repos (fst (getGit sl w)) g \<noteq> None"
    and "git_faults w g [''rev-parse'', ''--is-inside-work-tree''] = None"
    and "snd (mkdirSync w g) = Inr ()"
  using assms
  by (auto simp add: getGit_eq Let_def split: sum.splits option.splits if_splits)


lemma getGit_repos_other:
  "rp \<noteq> getRepoPath w sl \<Longrightarrow> repos (fst (getGit sl w)) rp = repos w rp"
  by (simp add: getGit_eq Let_def split: sum.splits option.splits)

lemma getGit_commits:
  "repos (fst (getGit sl w)) (getRepoPath w sl) = Some r \<Longrightarrow>
   commits r = (case repos w (getRepoPath w sl) of None \<Rightarrow> [] | Some r0 \<Rightarrow> commits r0)"
  by (auto simp add: getGit_eq Let_def split: sum.splits option.splits if_splits)

lemma getGit_history: "history (fst (getGit sl w)) sl' = history w sl'"
proof (cases "getRepoPath w sl' = getRepoPath w sl")
  case False
  then show ?thesis by (simp add: history_def getGit_repos_other)
next
  case True
  show ?thesis
    by (auto simp add: history_def True dest: getGit_commits split: option.splits)
      (auto simp add: getGit_eq Let_def split: sum.splits option.splits if_splits)
qed

lemma snapshot_failed_open:
  "snd (getGit sl w) = Inl e \<Longrightarrow> snapshot sl p w = (fst (getGit sl w), Inl e)"
  by (cases "getGit sl w") (simp add: snapshot_def)

lemma snapshot_opened:
  assumes g: "getGit sl w = (w1, Inr g)" and r: "repos w1 g = Some r"
  shows "snapshot sl p w =
     (case fs_files w p of
        None \<Rightarrow> (w1, Inr None)
      | Some fl \<Rightarrow>
          if \<not> fs_writable w (join [g, basename p]) then (w1, Inl EACCES)
          else
            (case git_faults w g [''add'', basename p] of
               Some e \<Rightarrow> (w1\<lparr>fs_files := (fs_files w)(join [g, basename p] \<mapsto> fl)\<rparr>, Inl e)
             | None \<Rightarrow>
                 (case git_faults w g [''status''] of
                    Some e \<Rightarrow>
                      (w1\<lparr>fs_files := (fs_files w)(join [g, basename p] \<mapsto> fl),
                          repos := (repos w1)(g \<mapsto> r\<lparr>index := AList.update (basename p) fl (index r)\<rparr>)\<rparr>,
                       Inl e)
                  | None \<Rightarrow>
                      if changed_paths (head_tree r) (AList.update (basename p) fl (index r)) = []
                      then
                        (w1\<lparr>fs_files := (fs_files w)(join [g, basename p] \<mapsto> fl),
                            repos := (repos w1)(g \<mapsto> r\<lparr>index := AList.update (basename p) fl (index r)\<rparr>)\<rparr>,
                         Inr None)
                      else
                        (case git_faults w g [''commit'', ''-m'', ''['' @ basename p @ ''] auto-snapshot''] of
                           Some e \<Rightarrow>
                             (w1\<lparr>fs_files := (fs_files w)(join [g, basename p] \<mapsto> fl),
                                 repos := (repos w1)(g \<mapsto> r\<lparr>index := AList.update (basename p) fl (index r)\<rparr>)\<rparr>,
                              Inl e)
                         | None \<Rightarrow>
                             (w1\<lparr>fs_files := (fs_files w)(join [g, basename p] \<mapsto> fl),
                                 repos := (repos w1)(g \<mapsto>
                                   r\<lparr>index := AList.update (basename p) fl (index r),
                                      commits :=
                                        \<lparr>c_hash = commit_name (length (commits r)), c_date = clock w,
                                          c_message = ''['' @ basename p @ ''] auto-snapshot'',
                                          c_body = [], c_tree = AList.update (basename p) fl (index r)\<rparr>
                                        # commits r\<rparr>)\<rparr>,
                              Inr (Some (commit_name (length (commits r)))))))))"
proof -
  have w1: "w1 = fst (getGit sl w)" using g by simp
  have gp: "g = getRepoPath w sl" using g getGit_Inr(1) [of sl w g] by simp
  have env: "fs_files w1 = fs_files w" "fs_writable w1 = fs_writable w"
    "git_faults w1 = git_faults w" "clock w1 = clock w" "getRepoPath w1 = getRepoPath w"
    by (simp_all add: w1)
  note defs = env gp [symmetric] existsSync_def copyFileSync_def git_add_def git_status_def
    git_commit_def git_run_def head_tree_def commit_name_def Let_def
  show ?thesis
  proof (cases "fs_files w p")
    case None
    then show ?thesis unfolding snapshot_def g and_then_Inr by (simp add: defs)
  next
    case (Some fl)
    show ?thesis
    proof (cases "fs_writable w (join [g, basename p])")
      case False
      with Some show ?thesis unfolding snapshot_def g and_then_Inr by (simp add: defs)
    next
      case wr: True
      show ?thesis
      proof (cases "git_faults w g [''add'', basename p]")
        case (Some e)
        with \<open>fs_files w p = Some fl\<close> wr r show ?thesis
          unfolding snapshot_def g and_then_Inr by (simp add: defs)
      next
        case add: None
        show ?thesis
        proof (cases "git_faults w g [''status'']")
          case (Some e)
          with \<open>fs_files w p = Some fl\<close> wr r add show ?thesis
            unfolding snapshot_def g and_then_Inr by (simp add: defs)
        next
          case st: None
          show ?thesis
          proof (cases "git_faults w g [''commit'', ''-m'', ''['' @ basename p @ ''] auto-snapshot'']")
            case (Some e)
            with \<open>fs_files w p = Some fl\<close> wr r add st show ?thesis
              unfolding snapshot_def g and_then_Inr by (simp add: defs)
          next
            case None
            with \<open>fs_files w p = Some fl\<close> wr r add st show ?thesis
              unfolding snapshot_def g and_then_Inr by (simp add: defs)
          qed
        qed
      qed
    qed
  qed
qed



lemma history_update [simp]:
  "history (w\<lparr>fs_files := F\<rparr>) sl = history w sl"
  "history (w\<lparr>clock := t\<rparr>) sl = history w sl"
  by (simp_all add: history_def)

lemma getGit_open_repo:
  assumes "getGit sl w = (w1, Inr g)"
  obtains r where "repos w1 g = Some r" and "commits r = history w sl"
    and "g = getRepoPath w sl"
proof -
  from assms have s: "snd (getGit sl w) = Inr g" and w1: "w1 = fst (getGit sl w)" by simp_all
  from getGit_Inr(1,2) [OF s] obtain r where g: "g = getRepoPath w sl" and r: "repos w1 g = Some r"
    by (auto simp add: w1)
  have "history w1 sl = history w sl" by (simp add: w1 getGit_history)
  moreover have "history w1 sl = commits r"
    using r g by (simp add: history_def w1)
  ultimately show ?thesis using that r g by simp
qed

lemma snapshot_missing_source:
  assumes "\<not> existsSync w p"
  shows "snapshot sl p w =
           (fst (getGit sl w), case snd (getGit sl w) of Inl e \<Rightarrow> Inl e | Inr g \<Rightarrow> Inr None)"
proof (cases "getGit sl w")
  case (Pair w1 res)
  then have w1: "w1 = fst (getGit sl w)" by simp
  have "\<not> existsSync w1 p" using assms by (simp add: existsSync_def w1)
  then show ?thesis using Pair by (cases res) (simp_all add: snapshot_def)
qed


lemma snapshot_Some_nonempty: "snd (snapshot sl p w) = Inr (Some h) \<Longrightarrow> h \<noteq> []"
proof (cases "getGit sl w")
  case (Pair w1 res)
  assume a: "snd (snapshot sl p w) = Inr (Some h)"
  show ?thesis
  proof (cases res)
    case (Inl e)
    with Pair a show ?thesis by (simp add: snapshot_failed_open)
  next
    case (Inr g)
    with Pair have g: "getGit sl w = (w1, Inr g)" by simp
    from getGit_open_repo [OF g] obtain r where r: "repos w1 g = Some r" by blast
    from a show ?thesis
      by (auto simp add: snapshot_opened [OF g r] commit_name_def split: option.splits if_splits)
  qed
qed



subsection \<open>Storage directories of projects\<close>



subsection \<open>A snapshot of a missing file\<close>

text \<open>
  C6, as stated, fails: \<open>snapshot\<close> opens the repository before it looks for the source
  file. Where a regular file is in the place of the directory of the repositories,
  \<open>mkdirSync\<close> throws, and where git fails, \<open>checkIsRepo\<close> throws; \<open>snapshot\<close> of a
  missing file then throws too.
\<close>

theorem C6_throws_before_the_check:
  "\<not> existsSync blocked_world ''/p/gone'' \<and>
   snd (snapshot ''p'' ''/p/gone'' blocked_world) = Inl ENOTDIR \<and>
   \<not> existsSync faulty_world ''/p/gone'' \<and>
   snd (snapshot ''p'' ''/p/gone'' faulty_world) = Inl (GitFailure 128)"
  by code_simp

text \<open>
  C6, amended: when the source file does not exist, \<open>snapshot\<close> returns \<open>null\<close> if
  \<open>getGit\<close> opens the repository, and throws the error of \<open>getGit\<close> if it does not; in
  both cases every history is left as it was.
\<close>

theorem C6_missing_source_after_open:
  assumes "\<not> existsSync w p"
  shows "(snd (getGit sl w) = Inr g \<longrightarrow> snd (snapshot sl p w) = Inr None) \<and>
         (snd (getGit sl w) = Inl e \<longrightarrow> snd (snapshot sl p w) = Inl e) \<and>
         history (fst (snapshot sl p w)) sl' = history w sl'"
  by (simp add: snapshot_missing_source [OF assms] getGit_history)

theorem C6_missing_source_after_open_witness:
  "\<not> existsSync home_world ''/p/gone'' \<and>
   snd (getGit ''p'' home_world) = Inr ''/h/.diffden/repos/p'' \<and>
   snd (snapshot ''p'' ''/p/gone'' home_world) = Inr None \<and>
   history (fst (snapshot ''p'' ''/p/gone'' home_world)) ''p'' = history home_world ''p'' \<and>
   \<not> existsSync blocked_world ''/p/gone'' \<and>
   snd (getGit ''p'' blocked_world) = Inl ENOTDIR \<and>
   snd (snapshot ''p'' ''/p/gone'' blocked_world) = Inl ENOTDIR"
proof -
  have h1: "\<not> existsSync home_world ''/p/gone''" by code_simp
  have g1: "snd (getGit ''p'' home_world) = Inr ''/h/.diffden/repos/p''" by code_simp
  have h2: "\<not> existsSync blocked_world ''/p/gone''" by code_simp
  have g2: "snd (getGit ''p'' blocked_world) = Inl ENOTDIR" by code_simp
  from C6_missing_source_after_open [OF h1, of "''p''" "''/h/.diffden/repos/p''" _ "''p''"] g1
  have a: "snd (snapshot ''p'' ''/p/gone'' home_world) = Inr None"
    and b: "history (fst (snapshot ''p'' ''/p/gone'' home_world)) ''p'' = history home_world ''p''"
    by blast+
  from C6_missing_source_after_open [OF h2, of "''p''" _ ENOTDIR] g2
  have c: "snd (snapshot ''p'' ''/p/gone'' blocked_world) = Inl ENOTDIR" by blast
  from h1 g1 a b h2 g2 c show ?thesis by blast
qed

subsection \<open>A second snapshot of an unchanged file\<close>




subsection \<open>Reading back: log, content and restore\<close>

lemma git_show_world: "fst (git_show rp args w) = w"
  by (simp add: git_show_def git_run_def Let_def split: option.splits list.splits)

lemma git_log_world: "fst (git_log rp args w) = w"
  by (simp add: git_log_def git_run_def split: option.splits list.splits)

lemma catch_and_then_value:
  "fst m = w \<Longrightarrow>
   catch (and_then m (\<lambda>x w. (w, Inr (g x)))) (\<lambda>w. (w, Inr d)) =
     (w, Inr (case snd m of Inl e \<Rightarrow> d | Inr x \<Rightarrow> g x))"
  by (cases m) (auto simp add: catch_def and_then_def split: sum.splits)

lemma catch_default:
  "fst m = w \<Longrightarrow>
   catch m (\<lambda>w. (w, Inr d)) = (w, Inr (case snd m of Inl e \<Rightarrow> d | Inr c \<Rightarrow> c))"
  by (cases m) (auto simp add: catch_def split: sum.splits)

lemma and_then_cases:
  "and_then m f = (case snd m of Inl e \<Rightarrow> (fst m, Inl e) | Inr x \<Rightarrow> f x (fst m))"
  by (cases m) (simp add: and_then_def split: sum.splits)

lemma getContent_eq:
  "getContent sl h f w =
     (fst (getGit sl w),
      case snd (getGit sl w) of
        Inl e \<Rightarrow> Inl e
      | Inr g \<Rightarrow>
          Inr (case snd (git_show (getRepoPath w sl) [h @ '':'' @ f] (fst (getGit sl w))) of
                 Inl e \<Rightarrow> ''(content not available)'' | Inr c \<Rightarrow> c))"
proof (cases "snd (getGit sl w)")
  case (Inl e)
  then show ?thesis by (simp add: getContent_def and_then_cases)
next
  case (Inr g)
  from getGit_Inr(1) [OF Inr] have g: "g = getRepoPath w sl" .
  show ?thesis
    unfolding getContent_def and_then_cases [of "getGit sl w"] Inr g
    by (simp add: catch_default [OF git_show_world])
qed

lemma restore_eq:
  "restore sl h f d w =
     (case snd (getGit sl w) of
        Inl e \<Rightarrow> (fst (getGit sl w), Inr False)
      | Inr g \<Rightarrow>
          (let c = (case snd (git_show (getRepoPath w sl) [h @ '':'' @ f] (fst (getGit sl w))) of
                      Inl e \<Rightarrow> ''(content not available)'' | Inr c \<Rightarrow> c)
           in if c = ''(content not available)'' \<or> \<not> fs_writable w d
              then (fst (getGit sl w), Inr False)
              else ((fst (getGit sl w))
                      \<lparr>fs_files := (fs_files w)(d \<mapsto>
                          (c, case fs_files w d of None \<Rightarrow> False | Some x \<Rightarrow> snd x))\<rparr>,
                    Inr True)))"
  by (cases "snd (getGit sl w)")
    (simp_all add: restore_def getContent_eq and_then_def catch_def writeFileSync_def Let_def)

lemma getLog_eq:
  "getLog sl fileName w =
     (fst (getGit sl w),
      case snd (getGit sl w) of
        Inl e \<Rightarrow> Inl e
      | Inr g \<Rightarrow>
          Inr (case snd (git_log g
                      ([''--stat'', ''--stat-width=200''] @
                       (if given fileName then [''--follow'', ''--'', the fileName] else []))
                      (fst (getGit sl w))) of
             Inl e \<Rightarrow> [] | Inr log \<Rightarrow> map snapshot_info log))"
proof (cases "snd (getGit sl w)")
  case (Inl e)
  then show ?thesis by (simp add: getLog_def and_then_cases)
next
  case (Inr g)
  show ?thesis
    unfolding getLog_def and_then_cases [of "getGit sl w"] Inr Let_def sum.case
    by (simp only: catch_and_then_value [OF git_log_world])
qed

text \<open>
  C7: \<open>restore\<close> always returns a boolean and never throws; it returns \<open>false\<close> when
  \<open>git show\<close> fails for the revision and file, and when the write to the destination fails.
\<close>

theorem C7_restore_never_throws:
  "(\<exists>b. snd (restore sl h f d w) = Inr b) \<and>
   (snd (git_show (getRepoPath w sl) [h @ '':'' @ f] (fst (getGit sl w))) = Inl e \<longrightarrow>
      snd (restore sl h f d w) = Inr False) \<and>
   (snd (writeFileSync (fst (getContent sl h f w)) d c) = Inl e' \<longrightarrow>
      snd (restore sl h f d w) = Inr False)"
  by (cases "snd (getGit sl w)")
    (auto simp add: restore_eq getContent_eq writeFileSync_def Let_def)

theorem C7_restore_never_throws_witness:
  "snd (git_show (getRepoPath home_world ''p'') [''zz'' @ '':'' @ ''n''] (fst (getGit ''p'' home_world)))
     = Inl BadRevision \<and>
   snd (restore ''p'' ''zz'' ''n'' ''/p/n'' home_world) = Inr False \<and>
   snd (git_show (getRepoPath readonly_world ''p'') [''c'' @ '':'' @ ''n''] (fst (getGit ''p'' readonly_world)))
     = Inr ''a'' \<and>
   snd (writeFileSync (fst (getContent ''p'' ''c'' ''n'' readonly_world)) ''/p/ro'' ''a'') = Inl EACCES \<and>
   snd (restore ''p'' ''c'' ''n'' ''/p/ro'' readonly_world) = Inr False"
proof -
  have h1: "snd (git_show (getRepoPath home_world ''p'') [''zz'' @ '':'' @ ''n'']
                  (fst (getGit ''p'' home_world))) = Inl BadRevision"
    by code_simp
  have h2: "snd (git_show (getRepoPath readonly_world ''p'') [''c'' @ '':'' @ ''n'']
                  (fst (getGit ''p'' readonly_world))) = Inr ''a''"
    by code_simp
  have h3: "snd (writeFileSync (fst (getContent ''p'' ''c'' ''n'' readonly_world)) ''/p/ro'' ''a'')
              = Inl EACCES"
    by code_simp
  have a: "snd (restore ''p'' ''zz'' ''n'' ''/p/n'' home_world) = Inr False"
    using h1 C7_restore_never_throws [where w = home_world and sl = "''p''" and h = "''zz''"
        and f = "''n''" and d = "''/p/n''" and e = BadRevision]
    by blast
  have b: "snd (restore ''p'' ''c'' ''n'' ''/p/ro'' readonly_world) = Inr False"
    using h3 C7_restore_never_throws [where w = readonly_world and sl = "''p''" and h = "''c''"
        and f = "''n''" and d = "''/p/ro''" and c = "''a''" and e' = EACCES]
    by blast
  from h1 h2 h3 a b show ?thesis by blast
qed

text \<open>
  C10: when the stored content of the file at the revision is the text
  \<open>(content not available)\<close>, \<open>git show\<close> succeeds, and yet \<open>restore\<close> returns \<open>false\<close>
  and writes nothing.
\<close>

theorem C10_restore_sentinel_content:
  "snd (git_show (getRepoPath w sl) [h @ '':'' @ f] (fst (getGit sl w)))
     = Inr ''(content not available)''
   \<Longrightarrow> snd (restore sl h f d w) = Inr False \<and> fs_files (fst (restore sl h f d w)) = fs_files w"
  by (cases "snd (getGit sl w)") (simp_all add: restore_eq Let_def)

theorem C10_restore_sentinel_content_witness:
  "snd (git_show (getRepoPath sentinel_world ''p'') [''c'' @ '':'' @ ''n'']
          (fst (getGit ''p'' sentinel_world))) = Inr ''(content not available)'' \<and>
   snd (restore ''p'' ''c'' ''n'' ''/p/n'' sentinel_world) = Inr False \<and>
   fs_files (fst (restore ''p'' ''c'' ''n'' ''/p/n'' sentinel_world)) = fs_files sentinel_world"
proof -
  have h: "snd (git_show (getRepoPath sentinel_world ''p'') [''c'' @ '':'' @ ''n'']
                 (fst (getGit ''p'' sentinel_world))) = Inr ''(content not available)''"
    by code_simp
  show ?thesis
    using h C10_restore_sentinel_content [OF h, of "''/p/n''"] by blast
qed

text \<open>
  C8, as stated, fails: \<open>getLog\<close> opens the repository with \<open>getGit\<close> before its \<open>try\<close>.
  Where a regular file is in the place of the directory of the repositories \<open>mkdirSync\<close>
  throws, and where \<open>git rev-parse\<close> fails \<open>checkIsRepo\<close> throws; \<open>getLog\<close> then throws
  the error to its caller.
\<close>

theorem C8_open_failure_propagates:
  "snd (getLog ''p'' (Some ''n'') blocked_world) = Inl ENOTDIR \<and>
   snd (getLog ''p'' None faulty_world) = Inl (GitFailure 128)"
  by code_simp

text \<open>
  C8, amended: when \<open>getGit\<close> has opened the repository and \<open>git log\<close> then fails,
  whatever the error, \<open>getLog\<close> returns the empty list and throws nothing; when \<open>getGit\<close>
  fails, \<open>getLog\<close> throws the error of \<open>getGit\<close>.
\<close>

theorem C8_getLog_failures:
  "(snd (getGit sl w) = Inr g \<and>
    snd (git_log g
          ([''--stat'', ''--stat-width=200''] @
           (if given fileName then [''--follow'', ''--'', the fileName] else []))
          (fst (getGit sl w))) = Inl e
    \<longrightarrow> snd (getLog sl fileName w) = Inr []) \<and>
   (snd (getGit sl w) = Inl e' \<longrightarrow> snd (getLog sl fileName w) = Inl e')"
  unfolding getLog_eq by (simp del: append.simps)

theorem C8_getLog_failures_witness:
  "snd (getGit ''p'' log_fault_world) = Inr ''/h/.diffden/repos/p'' \<and>
   snd (git_log ''/h/.diffden/repos/p''
          ([''--stat'', ''--stat-width=200''] @
           (if given (Some ''n'') then [''--follow'', ''--'', the (Some ''n'')] else []))
          (fst (getGit ''p'' log_fault_world))) = Inl (GitFailure 128) \<and>
   snd (getLog ''p'' (Some ''n'') log_fault_world) = Inr [] \<and>
   snd (getGit ''p'' home_world) = Inr ''/h/.diffden/repos/p'' \<and>
   snd (git_log ''/h/.diffden/repos/p''
          ([''--stat'', ''--stat-width=200''] @
           (if given None then [''--follow'', ''--'', the None] else []))
          (fst (getGit ''p'' home_world))) = Inl NoCommitsYet \<and>
   snd (getLog ''p'' None home_world) = Inr [] \<and>
   snd (getGit ''p'' blocked_world) = Inl ENOTDIR \<and>
   snd (getLog ''p'' None blocked_world) = Inl ENOTDIR"
proof -
  have g1: "snd (getGit ''p'' log_fault_world) = Inr ''/h/.diffden/repos/p''" by code_simp
  have l1: "snd (git_log ''/h/.diffden/repos/p''
          ([''--stat'', ''--stat-width=200''] @
           (if given (Some ''n'') then [''--follow'', ''--'', the (Some ''n'')] else []))
          (fst (getGit ''p'' log_fault_world))) = Inl (GitFailure 128)"
    by code_simp
  have g2: "snd (getGit ''p'' home_world) = Inr ''/h/.diffden/repos/p''" by code_simp
  have l2: "snd (git_log ''/h/.diffden/repos/p''
          ([''--stat'', ''--stat-width=200''] @
           (if given None then [''--follow'', ''--'', the None] else []))
          (fst (getGit ''p'' home_world))) = Inl NoCommitsYet"
    by code_simp
  have g3: "snd (getGit ''p'' blocked_world) = Inl ENOTDIR" by code_simp
  have a: "snd (getLog ''p'' (Some ''n'') log_fault_world) = Inr []"
    using g1 l1 C8_getLog_failures [where sl = "''p''" and w = log_fault_world
        and g = "''/h/.diffden/repos/p''" and fileName = "Some ''n''" and e = "GitFailure 128"]
    by blast
  have b: "snd (getLog ''p'' None home_world) = Inr []"
    using g2 l2 C8_getLog_failures [where sl = "''p''" and w = home_world
        and g = "''/h/.diffden/repos/p''" and fileName = None and e = NoCommitsYet]
    by blast
  have c: "snd (getLog ''p'' None blocked_world) = Inl ENOTDIR"
    using g3 C8_getLog_failures [where sl = "''p''" and w = blocked_world
        and fileName = None and e' = ENOTDIR]
    by blast
  from g1 l1 a g2 l2 b g3 c show ?thesis by blast
qed

subsection \<open>Diffs of revisions\<close>

text \<open>
  C4 fails on the code at the first commit of a repository. After the first snapshot of
  \<open>/p/n\<close> the file \<open>n\<close> has exactly one revision, \<open>c\<close>, the root commit. \<open>git diff c^ c\<close>
  fails, as \<open>c\<close> has no parent, and the second \<open>git diff\<close> of \<open>getDiff\<close> fails too: the
  object it names is not the empty tree of git. So \<open>getDiff\<close> returns
  \<open>(no diff available)\<close>, with or without a file name, where the claim has the whole
  content of the file as additions; \<open>git diff\<close> from the empty tree of git gives that.
  For the later revision \<open>c0\<close> of the file \<open>getDiff\<close> returns the change from \<open>c\<close>.
\<close>

theorem C4_no_diff_of_root_commit:
  "map c_hash (file_history ''n'' (history snapshot_world ''p'')) = [''c''] \<and>
   map c_tree (history snapshot_world ''p'') = [[(''n'', (''a'', False))]] \<and>
   snd (git_diff ''/h/.diffden/repos/p'' [''c^'', ''c'', ''--'', ''n''] snapshot_world)
     = Inl BadRevision \<and>
   snd (git_diff ''/h/.diffden/repos/p'' [''4b825dc642cb6eb9a060e54bf899d8b2da2e7862'', ''c'']
          snapshot_world) = Inl BadRevision \<and>
   snd (getDiff ''p'' ''c'' (Some ''n'') snapshot_world) = Inr (Literal ''(no diff available)'') \<and>
   snd (getDiff ''p'' ''c'' None snapshot_world) = Inr (Literal ''(no diff available)'') \<and>
   snd (git_diff ''/h/.diffden/repos/p'' [empty_tree_name, ''c''] snapshot_world)
     = Inr [Change ''n'' None (Some (''a'', False))] \<and>
   map c_hash (file_history ''n'' (history two_revisions_world ''p'')) = [''c0'', ''c''] \<and>
   snd (getDiff ''p'' ''c0'' (Some ''n'') two_revisions_world)
     = Inr (Patch [Change ''n'' (Some (''a'', False)) (Some (''ab'', False))])"
proof -
  have "map c_hash (file_history ''n'' (history snapshot_world ''p'')) = [''c'']" by code_simp
  moreover have "map c_tree (history snapshot_world ''p'') = [[(''n'', (''a'', False))]]"
    by code_simp
  moreover have "snd (git_diff ''/h/.diffden/repos/p'' [''c^'', ''c'', ''--'', ''n''] snapshot_world)
     = Inl BadRevision" by code_simp
  moreover have "snd (git_diff ''/h/.diffden/repos/p'' [''4b825dc642cb6eb9a060e54bf899d8b2da2e7862'', ''c'']
          snapshot_world) = Inl BadRevision" by code_simp
  moreover have "snd (getDiff ''p'' ''c'' (Some ''n'') snapshot_world) = Inr (Literal ''(no diff available)'')"
    by code_simp
  moreover have "snd (getDiff ''p'' ''c'' None snapshot_world) = Inr (Literal ''(no diff available)'')"
    by code_simp
  moreover have "snd (git_diff ''/h/.diffden/repos/p'' [empty_tree_name, ''c''] snapshot_world)
     = Inr [Change ''n'' None (Some (''a'', False))]" by code_simp
  moreover have "map c_hash (file_history ''n'' (history two_revisions_world ''p'')) = [''c0'', ''c'']"
    by code_simp
  moreover have "snd (getDiff ''p'' ''c0'' (Some ''n'') two_revisions_world)
     = Inr (Patch [Change ''n'' (Some (''a'', False)) (Some (''ab'', False))])" by code_simp
  ultimately show ?thesis by blast
qed

section \<open>Properties of the change watcher\<close>

subsection \<open>The debounce settle\<close>

text \<open>
  C5: the settle runs \<open>snapshot\<close> for the slug and file of the watch; with a callback
  registered, the callback is called with (slug, fileName), once, exactly when \<open>snapshot\<close>
  returned a revision identifier; when it returned \<open>null\<close> (or threw, or no callback is
  registered) nothing is notified.
\<close>

theorem C5_settle_notifies:
  "world (settle tm s) = fst (snapshot (t_slug tm) (t_filePath tm) (world s)) \<and>
   (onSnapshotCallback s = Some cb \<longrightarrow>
      notified (settle tm s) =
        notified s @
        (if \<exists>h. snd (snapshot (t_slug tm) (t_filePath tm) (world s)) = Inr (Some h)
         then [(cb, t_slug tm, t_fileName tm)] else [])) \<and>
   (onSnapshotCallback s = None \<longrightarrow> notified (settle tm s) = notified s)"
proof (cases "snapshot (t_slug tm) (t_filePath tm) (world s)")
  case (Pair w r)
  show ?thesis
  proof (cases r)
    case (Inl e)
    with Pair show ?thesis by (simp add: settle_def)
  next
    case (Inr ho)
    show ?thesis
    proof (cases ho)
      case None
      with Pair Inr show ?thesis by (simp add: settle_def split: option.splits)
    next
      case (Some h)
      with Pair Inr have "snd (snapshot (t_slug tm) (t_filePath tm) (world s)) = Inr (Some h)"
        by simp
      then have "h \<noteq> []" by (rule snapshot_Some_nonempty)
      with Pair Inr Some show ?thesis by (simp add: settle_def split: option.splits)
    qed
  qed
qed

theorem C5_settle_notifies_witness:
  "onSnapshotCallback (onSnapshot 7 (initial home_world)) = Some 7 \<and>
   snd (snapshot ''p'' ''/p/n'' home_world) = Inr (Some ''c'') \<and>
   notified (settle note_timer (onSnapshot 7 (initial home_world))) = [(7, ''p'', ''n'')] \<and>
   onSnapshotCallback (onSnapshot 7 (initial snapshot_world)) = Some 7 \<and>
   snd (snapshot ''p'' ''/p/n'' snapshot_world) = Inr None \<and>
   notified (settle note_timer (onSnapshot 7 (initial snapshot_world))) = [] \<and>
   onSnapshotCallback (initial home_world) = None \<and>
   notified (settle note_timer (initial home_world)) = []"
proof -
  have a1: "onSnapshotCallback (onSnapshot 7 (initial home_world)) = Some 7" by code_simp
  have a2: "snd (snapshot (t_slug note_timer) (t_filePath note_timer)
                  (world (onSnapshot 7 (initial home_world)))) = Inr (Some ''c'')"
    by code_simp
  have a3: "notified (onSnapshot 7 (initial home_world)) = []" by code_simp
  have a4: "t_slug note_timer = ''p'' \<and> t_fileName note_timer = ''n'' \<and> t_filePath note_timer = ''/p/n''"
    by code_simp
  have a5: "world (onSnapshot 7 (initial home_world)) = home_world"
    by (simp add: onSnapshot_def initial_def)
  have b1: "onSnapshotCallback (onSnapshot 7 (initial snapshot_world)) = Some 7" by code_simp
  have b2: "snd (snapshot (t_slug note_timer) (t_filePath note_timer)
                  (world (onSnapshot 7 (initial snapshot_world)))) = Inr None"
    by code_simp
  have b3: "notified (onSnapshot 7 (initial snapshot_world)) = []" by code_simp
  have b5: "world (onSnapshot 7 (initial snapshot_world)) = snapshot_world"
    by (simp add: onSnapshot_def initial_def)
  have c1: "onSnapshotCallback (initial home_world) = None" by code_simp
  have c3: "notified (initial home_world) = []" by code_simp
  have A: "notified (settle note_timer (onSnapshot 7 (initial home_world))) = [(7, ''p'', ''n'')]"
    using a1 a2 a3 a4
      C5_settle_notifies [where s = "onSnapshot 7 (initial home_world)" and tm = note_timer and cb = 7]
    by simp
  have B: "notified (settle note_timer (onSnapshot 7 (initial snapshot_world))) = []"
    using b1 b2 b3
      C5_settle_notifies [where s = "onSnapshot 7 (initial snapshot_world)" and tm = note_timer and cb = 7]
    by simp
  have C: "notified (settle note_timer (initial home_world)) = []"
    using c1 c3 C5_settle_notifies [where s = "initial home_world" and tm = note_timer]
    by simp
  from a1 a2 a4 a5 b1 b2 b5 c1 A B C show ?thesis by simp
qed

subsection \<open>The table and the open watchers\<close>

lemma start_file_fields [simp]:
  "world (start_file sl d f s) = world s"
  "timers (start_file sl d f s) = timers s"
  "onSnapshotCallback (start_file sl d f s) = onSnapshotCallback s"
  "notified (start_file sl d f s) = notified s"
  by (simp_all add: start_file_def Let_def)

lemma start_file_known: "has (watchers s) (watch_key sl f) \<Longrightarrow> start_file sl d f s = s"
  by (simp add: start_file_def Let_def)

lemma start_file_other:
  assumes "has (watchers s) k"
  shows "map_of (watchers (start_file sl d f s)) k = map_of (watchers s) k"
    and "filter (\<lambda>fw. watch_key (l_slug fw) (l_fileName fw) = k) (fswatchers (start_file sl d f s)) =
         filter (\<lambda>fw. watch_key (l_slug fw) (l_fileName fw) = k) (fswatchers s)"
  using assms by (auto simp add: start_file_def Let_def update_conv)

lemma watch_inv_start_file: "watch_inv s \<Longrightarrow> watch_inv (start_file sl d f s)"
proof (cases "has (watchers s) (watch_key sl f)")
  case True
  assume "watch_inv s"
  with True show ?thesis by (simp add: start_file_known)
next
  case False
  assume inv: "watch_inv s"
  from False have none: "map_of (watchers s) (watch_key sl f) = None" by (simp add: has_def)
  have old: "\<forall>fw \<in> set (fswatchers s). watch_key (l_slug fw) (l_fileName fw) \<noteq> watch_key sl f"
    using inv none by (auto simp add: watch_inv_def)
  have ids: "\<forall>fw \<in> set (fswatchers s). fw_id fw \<noteq> next_handle s"
    using inv by (auto simp add: watch_inv_def)
  show ?thesis
    using inv False old ids
    by (auto simp add: watch_inv_def start_file_def Let_def update_conv distinct_update less_Suc_eq)
qed

lemma foldl_preserves:
  "(\<And>s x. P s \<Longrightarrow> P (g s x)) \<Longrightarrow> P s \<Longrightarrow> P (foldl g s xs)"
  by (induction xs arbitrary: s) auto

lemma watch_inv_startWatching: "watch_inv s \<Longrightarrow> watch_inv (startWatching p s)"
  unfolding startWatching_def by (rule foldl_preserves) (rule watch_inv_start_file)


lemma delete_filter: "AList.delete k al = filter (\<lambda>x. fst x \<noteq> k) al"
  by (induction al) auto

lemma stop_entry_eq:
  "stop_entry sl fn s ke =
     (if stops sl fn ke
      then s\<lparr>fswatchers := filter (\<lambda>fw. fw_id fw \<noteq> watcher (snd ke)) (fswatchers s),
             watchers := filter (\<lambda>x. fst x \<noteq> fst ke) (watchers s)\<rparr>
      else s)"
  by (cases ke) (auto simp add: stop_entry_def stops_def close_def delete_filter Let_def)

lemma stop_loop_fields [simp]:
  "world (foldl (stop_entry sl fn) s kes) = world s"
  "timers (foldl (stop_entry sl fn) s kes) = timers s"
  "next_handle (foldl (stop_entry sl fn) s kes) = next_handle s"
  "onSnapshotCallback (foldl (stop_entry sl fn) s kes) = onSnapshotCallback s"
  "notified (foldl (stop_entry sl fn) s kes) = notified s"
  by (induction kes arbitrary: s; simp add: stop_entry_eq)+

lemma stop_loop_fswatchers:
  "fswatchers (foldl (stop_entry sl fn) s kes) =
     filter (\<lambda>fw. fw_id fw \<notin> set (map (watcher \<circ> snd) (filter (stops sl fn) kes))) (fswatchers s)"
  by (induction kes arbitrary: s) (auto simp add: stop_entry_eq intro!: filter_cong)

lemma stop_loop_watchers:
  "watchers (foldl (stop_entry sl fn) s kes) =
     filter (\<lambda>x. fst x \<notin> set (map fst (filter (stops sl fn) kes))) (watchers s)"
  by (induction kes arbitrary: s) (auto simp add: stop_entry_eq intro!: filter_cong)

lemma map_of_filter_keys:
  "k \<notin> K \<Longrightarrow> map_of (filter (\<lambda>x. fst x \<notin> K) al) k = map_of al k"
  by (induction al) auto

lemma watch_inv_stopWatching:
  assumes inv: "watch_inv s"
  shows "watch_inv (stopWatching sl fn s)"
proof -
  let ?K = "set (map fst (filter (stops sl fn) (watchers s)))"
  let ?I = "set (map (watcher \<circ> snd) (filter (stops sl fn) (watchers s)))"
  have keep: "map_of (watchers s) (watch_key (l_slug fw) (l_fileName fw)) =
                Some \<lparr>watcher = fw_id fw, filePath = l_filePath fw, entry_slug = l_slug fw\<rparr>
              \<Longrightarrow> fw_id fw \<notin> ?I \<Longrightarrow> watch_key (l_slug fw) (l_fileName fw) \<notin> ?K" for fw :: FSWatcher
  proof
    assume m: "map_of (watchers s) (watch_key (l_slug fw) (l_fileName fw)) =
                Some \<lparr>watcher = fw_id fw, filePath = l_filePath fw, entry_slug = l_slug fw\<rparr>"
      and notin: "fw_id fw \<notin> ?I" and k: "watch_key (l_slug fw) (l_fileName fw) \<in> ?K"
    from k obtain e where e: "(watch_key (l_slug fw) (l_fileName fw), e) \<in> set (watchers s)"
      and st: "stops sl fn (watch_key (l_slug fw) (l_fileName fw), e)" by auto
    from inv have "distinct (map fst (watchers s))" by (simp add: watch_inv_def)
    with e have "map_of (watchers s) (watch_key (l_slug fw) (l_fileName fw)) = Some e" by simp
    with m have "watcher e = fw_id fw" by auto
    with e st have "fw_id fw \<in> ?I" by force
    with notin show False by simp
  qed
  have d1: "distinct (map fst (watchers (stopWatching sl fn s)))"
    using inv by (simp add: watch_inv_def stopWatching_def stop_loop_watchers distinct_map_filter)
  have d2: "distinct (map fw_id (fswatchers (stopWatching sl fn s)))"
    using inv by (simp add: watch_inv_def stopWatching_def stop_loop_fswatchers distinct_map_filter)
  have d3: "fw_id fw < next_handle (stopWatching sl fn s) \<and>
            map_of (watchers (stopWatching sl fn s)) (watch_key (l_slug fw) (l_fileName fw)) =
              Some \<lparr>watcher = fw_id fw, filePath = l_filePath fw, entry_slug = l_slug fw\<rparr>"
    if "fw \<in> set (fswatchers (stopWatching sl fn s))" for fw :: FSWatcher
  proof -
    from that have mem: "fw \<in> set (fswatchers s)" and notin: "fw_id fw \<notin> ?I"
      by (simp_all add: stopWatching_def stop_loop_fswatchers)
    from inv mem have lt: "fw_id fw < next_handle s"
      and m: "map_of (watchers s) (watch_key (l_slug fw) (l_fileName fw)) =
                Some \<lparr>watcher = fw_id fw, filePath = l_filePath fw, entry_slug = l_slug fw\<rparr>"
      by (simp_all add: watch_inv_def)
    from keep [OF m notin] have "watch_key (l_slug fw) (l_fileName fw) \<notin> ?K" .
    then have "map_of (watchers (stopWatching sl fn s)) (watch_key (l_slug fw) (l_fileName fw)) =
               map_of (watchers s) (watch_key (l_slug fw) (l_fileName fw))"
      unfolding stopWatching_def stop_loop_watchers by (rule map_of_filter_keys)
    with lt m show ?thesis by (simp add: stopWatching_def)
  qed
  from d1 d2 d3 show ?thesis unfolding watch_inv_def by blast
qed


lemma watch_inv_map:
  assumes "watch_inv s" and "watchers s' = watchers s" and "next_handle s \<le> next_handle s'"
    and "fswatchers s' = map g (fswatchers s)"
    and "\<And>x. fw_id (g x) = fw_id x \<and> l_slug (g x) = l_slug x \<and>
              l_fileName (g x) = l_fileName x \<and> l_filePath (g x) = l_filePath x"
  shows "watch_inv s'"
proof -
  have "fw_id \<circ> g = fw_id"
    using assms(5) by (simp add: fun_eq_iff)
  with assms show ?thesis
    by (auto simp add: watch_inv_def)
qed

lemma watch_inv_same:
  "watch_inv s \<Longrightarrow> watchers s' = watchers s \<Longrightarrow> next_handle s \<le> next_handle s' \<Longrightarrow>
   fswatchers s' = fswatchers s \<Longrightarrow> watch_inv s'"
  by (rule watch_inv_map [where g = "\<lambda>x. x"]) simp_all

lemma on_change_fields [simp]:
  "world (on_change h s) = world s"
  "watchers (on_change h s) = watchers s"
  "onSnapshotCallback (on_change h s) = onSnapshotCallback s"
  "notified (on_change h s) = notified s"
  by (simp_all add: on_change_def clearTimeout_def Let_def split: option.splits)

lemma watch_inv_on_change: "watch_inv s \<Longrightarrow> watch_inv (on_change h s)"
proof (cases "find (\<lambda>fw. fw_id fw = h) (fswatchers s)")
  case None
  assume "watch_inv s"
  with None show ?thesis by (simp add: on_change_def)
next
  case (Some fw)
  assume inv: "watch_inv s"
  let ?t = "next_handle s"
  show ?thesis
  proof (rule watch_inv_map [OF inv, where g = "\<lambda>x. if fw_id x = h then x\<lparr>debounceTimer := Some ?t\<rparr> else x"])
    show "watchers (on_change h s) = watchers s" by simp
    show "next_handle s \<le> next_handle (on_change h s)"
      using Some by (simp add: on_change_def clearTimeout_def Let_def split: option.splits)
    show "fswatchers (on_change h s) =
            map (\<lambda>x. if fw_id x = h then x\<lparr>debounceTimer := Some ?t\<rparr> else x) (fswatchers s)"
      using Some by (simp add: on_change_def clearTimeout_def Let_def split: option.splits)
  qed simp
qed

lemma settle_fields [simp]:
  "watchers (settle tm s) = watchers s"
  "fswatchers (settle tm s) = fswatchers s"
  "timers (settle tm s) = timers s"
  "next_handle (settle tm s) = next_handle s"
  "onSnapshotCallback (settle tm s) = onSnapshotCallback s"
  by (simp_all add: settle_def split: prod.splits sum.splits option.splits)

lemma fire_fields [simp]:
  "watchers (fire tm s) = watchers s"
  "fswatchers (fire tm s) = fswatchers s"
  "next_handle (fire tm s) = next_handle s"
  "onSnapshotCallback (fire tm s) = onSnapshotCallback s"
  by (simp_all add: fire_def)

lemma fire_loop_fields [simp]:
  "watchers (foldl (\<lambda>s tm. fire tm s) s tms) = watchers s"
  "fswatchers (foldl (\<lambda>s tm. fire tm s) s tms) = fswatchers s"
  "next_handle (foldl (\<lambda>s tm. fire tm s) s tms) = next_handle s"
  "onSnapshotCallback (foldl (\<lambda>s tm. fire tm s) s tms) = onSnapshotCallback s"
  by (induction tms arbitrary: s; simp)+

lemma advance_fields [simp]:
  "watchers (advance ms s) = watchers s"
  "fswatchers (advance ms s) = fswatchers s"
  "next_handle (advance ms s) = next_handle s"
  "onSnapshotCallback (advance ms s) = onSnapshotCallback s"
  by (simp_all add: advance_def Let_def)

lemma close_loop_fswatchers:
  "fswatchers (foldl (\<lambda>s ke. close (watcher (snd ke)) s) s kes) =
     filter (\<lambda>fw. fw_id fw \<notin> set (map (watcher \<circ> snd) kes)) (fswatchers s)"
  by (induction kes arbitrary: s) (auto simp add: close_def intro!: filter_cong)

lemma close_loop_fields [simp]:
  "world (foldl (\<lambda>s ke. close (watcher (snd ke)) s) s kes) = world s"
  "timers (foldl (\<lambda>s ke. close (watcher (snd ke)) s) s kes) = timers s"
  "next_handle (foldl (\<lambda>s ke. close (watcher (snd ke)) s) s kes) = next_handle s"
  "onSnapshotCallback (foldl (\<lambda>s ke. close (watcher (snd ke)) s) s kes) = onSnapshotCallback s"
  "notified (foldl (\<lambda>s ke. close (watcher (snd ke)) s) s kes) = notified s"
  by (induction kes arbitrary: s; simp add: close_def)+

lemma watch_inv_stopAll:
  assumes inv: "watch_inv s"
  shows "watch_inv (stopAll s)"
proof -
  have "fw_id fw \<in> set (map (watcher \<circ> snd) (watchers s))"
    if "fw \<in> set (fswatchers s)" for fw :: FSWatcher
  proof -
    from inv that have "map_of (watchers s) (watch_key (l_slug fw) (l_fileName fw)) =
        Some \<lparr>watcher = fw_id fw, filePath = l_filePath fw, entry_slug = l_slug fw\<rparr>"
      by (simp add: watch_inv_def)
    then have "(watch_key (l_slug fw) (l_fileName fw),
                \<lparr>watcher = fw_id fw, filePath = l_filePath fw, entry_slug = l_slug fw\<rparr>)
               \<in> set (watchers s)"
      by (rule map_of_SomeD)
    then show ?thesis by force
  qed
  then have "fswatchers (stopAll s) = []"
    by (simp add: stopAll_def Let_def close_loop_fswatchers del: set_map)
  then show ?thesis by (simp add: watch_inv_def stopAll_def Let_def)
qed

lemma watch_inv_step: "watch_inv s \<Longrightarrow> watch_inv (step e s)"
proof (cases e)
  case (StartWatching p)
  assume "watch_inv s"
  with StartWatching show ?thesis by (simp add: step_def watch_inv_startWatching)
next
  case (StopWatching sl fn)
  assume "watch_inv s"
  with StopWatching show ?thesis by (simp add: step_def watch_inv_stopWatching)
next
  case StopAll
  assume "watch_inv s"
  with StopAll show ?thesis by (simp add: step_def watch_inv_stopAll)
next
  case (ChangeEvent h)
  assume "watch_inv s"
  with ChangeEvent show ?thesis by (simp add: step_def watch_inv_on_change)
next
  case (OnSnapshot cb)
  assume "watch_inv s"
  then have "watch_inv (onSnapshot cb s)" by (rule watch_inv_same) (simp_all add: onSnapshot_def)
  with OnSnapshot show ?thesis by (simp add: step_def)
next
  case (Advance ms)
  assume "watch_inv s"
  then have "watch_inv (advance ms s)" by (rule watch_inv_same) simp_all
  with Advance show ?thesis by (simp add: step_def)
next
  case (FileWritten p c)
  assume "watch_inv s"
  then have "watch_inv (step (FileWritten p c) s)" by (rule watch_inv_same) (simp_all add: step_def)
  with FileWritten show ?thesis by simp
next
  case (CallSnapshot sl p)
  assume "watch_inv s"
  then have "watch_inv (step (CallSnapshot sl p) s)" by (rule watch_inv_same) (simp_all add: step_def)
  with CallSnapshot show ?thesis by simp
next
  case (CallRestore sl h f d)
  assume "watch_inv s"
  then have "watch_inv (step (CallRestore sl h f d) s)"
    by (rule watch_inv_same) (simp_all add: step_def)
  with CallRestore show ?thesis by simp
qed

lemma reachable_watch_inv: "reachable s \<Longrightarrow> watch_inv s"
proof (induction rule: reachable.induct)
  case (reachable_initial w)
  show ?case by (simp add: watch_inv_def initial_def)
next
  case (reachable_step s e)
  then show ?case by (simp add: watch_inv_step)
qed


lemma filter_same_image:
  "distinct (map g xs) \<Longrightarrow> (\<forall>x \<in> set xs. P x \<longrightarrow> g x = c) \<Longrightarrow> length (filter P xs) \<le> 1"
proof (induction xs)
  case Nil
  show ?case by simp
next
  case (Cons x xs)
  show ?case
  proof (cases "P x")
    case False
    with Cons show ?thesis by simp
  next
    case True
    with Cons.prems have gx: "g x = c" and notin: "c \<notin> g ` set xs" by auto
    have "filter P xs = []"
    proof (rule ccontr)
      assume "filter P xs \<noteq> []"
      then obtain y where "y \<in> set xs" "P y" by (metis filter_False)
      with Cons.prems have "g y = c" by auto
      with \<open>y \<in> set xs\<close> notin show False by auto
    qed
    with True show ?thesis by simp
  qed
qed

lemma startWatching_known:
  "(\<forall>f \<in> set fs. has (watchers s) (watch_key sl f)) \<Longrightarrow>
   foldl (\<lambda>s f. start_file sl d f s) s fs = s"
  by (induction fs) (simp_all add: start_file_known)

lemma startWatching_other:
  "has (watchers s) k \<Longrightarrow>
   map_of (watchers (foldl (\<lambda>s f. start_file sl d f s) s fs)) k = map_of (watchers s) k \<and>
   filter (\<lambda>fw. watch_key (l_slug fw) (l_fileName fw) = k)
          (fswatchers (foldl (\<lambda>s f. start_file sl d f s) s fs)) =
   filter (\<lambda>fw. watch_key (l_slug fw) (l_fileName fw) = k) (fswatchers s)"
proof (induction fs arbitrary: s)
  case Nil
  show ?case by simp
next
  case (Cons f fs)
  have "has (watchers (start_file sl d f s)) k"
    using Cons.prems start_file_other(1) [OF Cons.prems] by (simp add: has_def)
  from Cons.IH [OF this] show ?case
    using start_file_other [OF Cons.prems] by simp
qed

text \<open>
  C9: in every state the process can reach there is at most one open watcher per key and
  the keys of the table are distinct; \<open>startWatching\<close> for a project whose files are all
  watched changes nothing, and for a key that is in the table it leaves the entry and the
  open watcher of that key as they are.
\<close>

theorem C9_one_watch_per_key:
  assumes "reachable s"
  shows "length (filter (\<lambda>fw. watch_key (l_slug fw) (l_fileName fw) = k) (fswatchers s)) \<le> 1 \<and>
         distinct (map fst (watchers s)) \<and>
         ((\<forall>f \<in> set (files p). isWatching (slug p) f s) \<longrightarrow> startWatching p s = s) \<and>
         (has (watchers s) k \<longrightarrow>
            map_of (watchers (startWatching p s)) k = map_of (watchers s) k \<and>
            filter (\<lambda>fw. watch_key (l_slug fw) (l_fileName fw) = k) (fswatchers (startWatching p s)) =
            filter (\<lambda>fw. watch_key (l_slug fw) (l_fileName fw) = k) (fswatchers s))"
proof -
  from assms have inv: "watch_inv s" by (rule reachable_watch_inv)
  have one: "length (filter (\<lambda>fw. watch_key (l_slug fw) (l_fileName fw) = k) (fswatchers s)) \<le> 1"
  proof (rule filter_same_image [where g = fw_id and c = "watcher (the (map_of (watchers s) k))"])
    show "distinct (map fw_id (fswatchers s))" using inv by (simp add: watch_inv_def)
    show "\<forall>fw \<in> set (fswatchers s). watch_key (l_slug fw) (l_fileName fw) = k \<longrightarrow>
            fw_id fw = watcher (the (map_of (watchers s) k))"
      using inv by (auto simp add: watch_inv_def)
  qed
  have keys: "distinct (map fst (watchers s))" using inv by (simp add: watch_inv_def)
  have noop: "(\<forall>f \<in> set (files p). isWatching (slug p) f s) \<longrightarrow> startWatching p s = s"
    by (simp add: startWatching_def isWatching_def startWatching_known)
  have kept: "has (watchers s) k \<longrightarrow>
            map_of (watchers (startWatching p s)) k = map_of (watchers s) k \<and>
            filter (\<lambda>fw. watch_key (l_slug fw) (l_fileName fw) = k) (fswatchers (startWatching p s)) =
            filter (\<lambda>fw. watch_key (l_slug fw) (l_fileName fw) = k) (fswatchers s)"
    unfolding startWatching_def using startWatching_other by blast
  from one keys noop kept show ?thesis by blast
qed

theorem C9_one_watch_per_key_witness:
  "reachable armed_state \<and>
   isWatching ''p'' ''n'' armed_state \<and> isWatching ''p'' ''m'' armed_state \<and>
   has (watchers armed_state) ''p:n'' \<and>
   length (filter (\<lambda>fw. watch_key (l_slug fw) (l_fileName fw) = ''p:n'') (fswatchers armed_state)) \<le> 1 \<and>
   startWatching note_project armed_state = armed_state"
proof -
  have r: "reachable armed_state"
    unfolding armed_state_def by (intro reachable.intros)
  have w1: "isWatching ''p'' ''n'' armed_state" by code_simp
  have w2: "isWatching ''p'' ''m'' armed_state" by code_simp
  have fs: "files note_project = [''n'', ''m'']" and sl: "slug note_project = ''p''"
    by (simp_all add: note_project_def)
  have h: "has (watchers armed_state) ''p:n''" by code_simp
  have all: "\<forall>f \<in> set (files note_project). isWatching (slug note_project) f armed_state"
    using w1 w2 by (simp add: fs sl)
  from C9_one_watch_per_key [OF r, of "''p:n''" note_project] all
  have "length (filter (\<lambda>fw. watch_key (l_slug fw) (l_fileName fw) = ''p:n'') (fswatchers armed_state)) \<le> 1"
    and "startWatching note_project armed_state = armed_state"
    by blast+
  with r w1 w2 h show ?thesis by blast
qed


subsection \<open>Stopping a watch while its timer is armed\<close>

lemma ends_with_key: "ends_with (watch_key sl f) (CHR '':'' # f)"
  by (simp add: ends_with_def watch_key_def)

lemma stops_key: "entry_slug e = sl \<Longrightarrow> stops sl (Some f) (watch_key sl f, e)"
  by (cases "f = []") (simp_all add: stops_def given_def ends_with_key)

lemma stopWatching_closes:
  assumes inv: "watch_inv s"
    and fw: "fw \<in> set (fswatchers (stopWatching sl (Some f) s))"
  shows "\<not> (l_slug fw = sl \<and> l_fileName fw = f)"
proof
  assume k: "l_slug fw = sl \<and> l_fileName fw = f"
  from fw have mem: "fw \<in> set (fswatchers s)"
    and notin: "fw_id fw \<notin> set (map (watcher \<circ> snd) (filter (stops sl (Some f)) (watchers s)))"
    by (simp_all add: stopWatching_def stop_loop_fswatchers)
  let ?e = "\<lparr>watcher = fw_id fw, filePath = l_filePath fw, entry_slug = l_slug fw\<rparr>"
  from inv mem have "map_of (watchers s) (watch_key (l_slug fw) (l_fileName fw)) = Some ?e"
    by (simp add: watch_inv_def)
  then have "(watch_key sl f, ?e) \<in> set (watchers s)" using k by (auto dest: map_of_SomeD)
  moreover have "stops sl (Some f) (watch_key sl f, ?e)"
    using k by (simp add: stops_key)
  ultimately have "fw_id fw \<in> set (map (watcher \<circ> snd) (filter (stops sl (Some f)) (watchers s)))"
    by force
  with notin show False by simp
qed

lemma stopWatching_table:
  assumes "map_of (watchers (stopWatching sl (Some f) s)) (watch_key sl f) = Some e"
  shows "entry_slug e \<noteq> sl"
proof
  assume sl: "entry_slug e = sl"
  from assms have "(watch_key sl f, e) \<in> set (watchers (stopWatching sl (Some f) s))"
    by (rule map_of_SomeD)
  then have mem: "(watch_key sl f, e) \<in> set (watchers s)"
    and notin: "watch_key sl f \<notin> set (map fst (filter (stops sl (Some f)) (watchers s)))"
    by (simp_all add: stopWatching_def stop_loop_watchers)
  from mem stops_key [OF sl, of f]
  have "watch_key sl f \<in> set (map fst (filter (stops sl (Some f)) (watchers s)))" by force
  with notin show False by simp
qed

lemma on_change_timers:
  assumes "tm \<in> set (timers (on_change h s))"
  shows "tm \<in> set (timers s) \<or>
         (\<exists>fw \<in> set (fswatchers s). t_slug tm = l_slug fw \<and> t_fileName tm = l_fileName fw)"
proof (cases "find (\<lambda>fw. fw_id fw = h) (fswatchers s)")
  case None
  with assms show ?thesis by (simp add: on_change_def)
next
  case (Some fw)
  then have "fw \<in> set (fswatchers s)" by (auto simp add: find_Some_iff)
  with assms Some show ?thesis
    by (auto simp add: on_change_def clearTimeout_def Let_def split: option.splits)
qed

lemma on_change_fswatchers:
  assumes "fw \<in> set (fswatchers (on_change h s))"
  shows "\<exists>fw0 \<in> set (fswatchers s). l_slug fw = l_slug fw0 \<and> l_fileName fw = l_fileName fw0"
  using assms
  by (auto simp add: on_change_def clearTimeout_def Let_def split: option.splits if_splits)

lemma start_file_fswatchers:
  "fw \<in> set (fswatchers (start_file sl d f s)) \<Longrightarrow>
   fw \<in> set (fswatchers s) \<or> (l_slug fw = sl \<and> l_fileName fw = f)"
  by (auto simp add: start_file_def Let_def split: if_splits)

lemma start_loop_fswatchers:
  "fw \<in> set (fswatchers (foldl (\<lambda>s fileName. start_file sl d fileName s) s fs)) \<Longrightarrow>
   fw \<in> set (fswatchers s) \<or> (l_slug fw = sl \<and> l_fileName fw \<in> set fs)"
proof (induction fs arbitrary: s)
  case Nil
  then show ?case by simp
next
  case (Cons a fs)
  from Cons.IH [of "start_file sl d a s"] Cons.prems
  have "fw \<in> set (fswatchers (start_file sl d a s)) \<or> (l_slug fw = sl \<and> l_fileName fw \<in> set fs)"
    by simp
  then show ?case by (auto dest: start_file_fswatchers)
qed

lemma start_loop_timers [simp]:
  "timers (foldl (\<lambda>s fileName. start_file sl d fileName s) s fs) = timers s"
  by (induction fs arbitrary: s) simp_all

lemma fire_timers:
  "timers (fire x s) = (if x \<in> set (timers s) then filter (\<lambda>y. t_id y \<noteq> t_id x) (timers s) else timers s)"
  by (simp add: fire_def)

lemma fire_loop_timers: "set (timers (foldl (\<lambda>s tm. fire tm s) s tms)) \<subseteq> set (timers s)"
proof (induction tms arbitrary: s)
  case Nil
  show ?case by simp
next
  case (Cons a tms)
  have "set (timers (fire a s)) \<subseteq> set (timers s)" by (auto simp add: fire_timers)
  with Cons [of "fire a s"] show ?case by auto
qed

lemma advance_timers: "set (timers (advance ms s)) \<subseteq> set (timers s)"
  using fire_loop_timers by (simp add: advance_def Let_def)

text \<open>A step that starts no watch of the file opens no watcher for it, and a timer it
  arms comes from an open watcher.\<close>

lemma step_fswatchers:
  assumes "\<not> starts sl f e" and "fw \<in> set (fswatchers (step e s))"
  shows "(\<exists>fw0 \<in> set (fswatchers s). l_slug fw = l_slug fw0 \<and> l_fileName fw = l_fileName fw0)
         \<or> \<not> (l_slug fw = sl \<and> l_fileName fw = f)"
proof (cases e)
  case (StartWatching project)
  with assms(2) have "fw \<in> set (fswatchers s) \<or>
      (l_slug fw = slug project \<and> l_fileName fw \<in> set (files project))"
    by (auto simp add: step_def startWatching_def dest: start_loop_fswatchers)
  with assms(1) StartWatching show ?thesis by (auto simp add: starts_def)
next
  case (StopWatching sl' fn)
  with assms(2) show ?thesis
    by (auto simp add: step_def stopWatching_def stop_loop_fswatchers)
next
  case StopAll
  with assms(2) show ?thesis
    by (auto simp add: step_def stopAll_def Let_def close_loop_fswatchers)
next
  case (ChangeEvent h)
  with assms(2) show ?thesis
    by (auto simp add: step_def dest: on_change_fswatchers)
qed (use assms(2) in \<open>auto simp add: step_def onSnapshot_def\<close>)

lemma step_timers:
  assumes "tm \<in> set (timers (step e s))"
  shows "tm \<in> set (timers s) \<or>
         (\<exists>fw \<in> set (fswatchers s). t_slug tm = l_slug fw \<and> t_fileName tm = l_fileName fw)"
proof (cases e)
  case (ChangeEvent h)
  with assms show ?thesis by (auto simp add: step_def dest: on_change_timers)
next
  case (Advance ms)
  with assms advance_timers [of ms s] show ?thesis by (auto simp add: step_def)
qed (use assms in \<open>auto simp add: step_def onSnapshot_def startWatching_def stopWatching_def
      stopAll_def Let_def\<close>)

lemma run_no_rearm:
  assumes "\<forall>fw \<in> set (fswatchers s). \<not> (l_slug fw = sl \<and> l_fileName fw = f)"
    and "\<forall>e \<in> set es. \<not> starts sl f e"
  shows "(\<forall>fw \<in> set (fswatchers (run es s)). \<not> (l_slug fw = sl \<and> l_fileName fw = f)) \<and>
         (\<forall>tm \<in> set (timers (run es s)). t_slug tm = sl \<and> t_fileName tm = f \<longrightarrow> tm \<in> set (timers s))"
  using assms
proof (induction es arbitrary: s)
  case Nil
  then show ?case by (simp add: run_def)
next
  case (Cons e es)
  have r: "run (e # es) s = run es (step e s)" by (simp add: run_def)
  from Cons.prems have ne: "\<not> starts sl f e" and nes: "\<forall>e \<in> set es. \<not> starts sl f e" by simp_all
  have w: "\<forall>fw \<in> set (fswatchers (step e s)). \<not> (l_slug fw = sl \<and> l_fileName fw = f)"
    using step_fswatchers [OF ne] Cons.prems(1) by metis
  from Cons.IH [OF w nes]
  have a: "\<forall>fw \<in> set (fswatchers (run es (step e s))). \<not> (l_slug fw = sl \<and> l_fileName fw = f)"
    and b: "\<forall>tm \<in> set (timers (run es (step e s))).
              t_slug tm = sl \<and> t_fileName tm = f \<longrightarrow> tm \<in> set (timers (step e s))"
    by blast+
  have c: "\<forall>tm \<in> set (timers (step e s)). t_slug tm = sl \<and> t_fileName tm = f \<longrightarrow> tm \<in> set (timers s)"
    using step_timers [of _ e s] Cons.prems(1) by metis
  from a b c show ?case unfolding r by blast
qed

text \<open>The handles of the pending timers are distinct in every state of the process.\<close>

lemma timer_inv_filter:
  "timer_inv s \<Longrightarrow> timers s' = filter P (timers s) \<Longrightarrow> next_handle s \<le> next_handle s' \<Longrightarrow> timer_inv s'"
  by (auto simp add: timer_inv_def distinct_map_filter)

lemma timer_inv_on_change: "timer_inv s \<Longrightarrow> timer_inv (on_change h s)"
  by (auto simp add: timer_inv_def on_change_def clearTimeout_def Let_def distinct_map_filter
      less_Suc_eq split: option.splits)

lemma timer_inv_fire: "timer_inv s \<Longrightarrow> timer_inv (fire x s)"
  by (cases "x \<in> set (timers s)")
    (auto simp add: fire_timers intro: timer_inv_filter [where P = "\<lambda>y. t_id y \<noteq> t_id x"]
       timer_inv_filter [where P = "\<lambda>y. True"])

lemma timer_inv_step: "timer_inv s \<Longrightarrow> timer_inv (step e s)"
proof (cases e)
  case (ChangeEvent h)
  assume "timer_inv s"
  with ChangeEvent show ?thesis by (simp add: step_def timer_inv_on_change)
next
  case (Advance ms)
  assume inv: "timer_inv s"
  have "timer_inv (foldl (\<lambda>s tm. fire tm s) s tms)" for tms
    by (rule foldl_preserves) (rule timer_inv_fire, assumption, rule inv)
  then show ?thesis
    using Advance by (simp add: step_def advance_def Let_def timer_inv_def)
next
  case (StartWatching project)
  assume inv: "timer_inv s"
  have "next_handle s \<le> next_handle (foldl (\<lambda>s fileName. start_file sl d fileName s) s fs)" for sl d fs
  proof (induction fs arbitrary: s)
    case Nil
    show ?case by simp
  next
    case (Cons a fs)
    have "next_handle s \<le> next_handle (start_file sl d a s)"
      by (simp add: start_file_def Let_def)
    with Cons [of "start_file sl d a s"] show ?case by simp
  qed
  with inv StartWatching show ?thesis
    by (auto simp add: step_def startWatching_def
        intro: timer_inv_filter [where P = "\<lambda>y. True"])
qed (auto simp add: step_def timer_inv_def onSnapshot_def stopWatching_def stopAll_def Let_def)

lemma reachable_timer_inv: "reachable s \<Longrightarrow> timer_inv s"
proof (induction rule: reachable.induct)
  case (reachable_initial w)
  show ?case by (simp add: timer_inv_def initial_def)
next
  case (reachable_step s e)
  then show ?case by (simp add: timer_inv_step)
qed

text \<open>A pending timer stays pending while other timers fire, and its callback calls
  \<open>snapshot\<close>.\<close>

lemma fire_loop_keeps:
  "tm \<in> set (timers s) \<Longrightarrow> \<forall>x \<in> set xs. t_id x \<noteq> t_id tm \<Longrightarrow>
   tm \<in> set (timers (foldl (\<lambda>s x. fire x s) s xs))"
proof (induction xs arbitrary: s)
  case Nil
  then show ?case by simp
next
  case (Cons a xs)
  from Cons.prems have "tm \<in> set (timers (fire a s))" by (simp add: fire_timers)
  with Cons.IH [of "fire a s"] Cons.prems(2) show ?case by simp
qed

lemma settle_world:
  "world (settle tm s) = fst (snapshot (t_slug tm) (t_filePath tm) (world s))"
  by (simp add: settle_def split: prod.splits sum.splits option.splits)

lemma due_split:
  assumes d: "distinct (map t_id tms)" and m: "tm \<in> set due" and sub: "set due \<subseteq> set tms"
  shows "due = takeWhile (\<lambda>x. t_id x \<noteq> t_id tm) due @ tm # tl (dropWhile (\<lambda>x. t_id x \<noteq> t_id tm) due)"
proof -
  let ?P = "\<lambda>x. t_id x \<noteq> t_id tm"
  from m have ne: "dropWhile ?P due \<noteq> []" by (auto simp add: dropWhile_eq_Nil_conv)
  then have h: "\<not> ?P (hd (dropWhile ?P due))" by (rule hd_dropWhile)
  from ne have "hd (dropWhile ?P due) \<in> set (dropWhile ?P due)" by simp
  then have "hd (dropWhile ?P due) \<in> set due" by (rule set_dropWhileD)
  with sub m have "hd (dropWhile ?P due) \<in> set tms" "tm \<in> set tms" by auto
  with d h have "hd (dropWhile ?P due) = tm"
    by (auto simp add: distinct_map dest: inj_onD)
  with ne have "dropWhile ?P due = tm # tl (dropWhile ?P due)"
    by (metis list.collapse)
  then show ?thesis by (metis takeWhile_dropWhile_id)
qed

text \<open>
  C1, as stated, fails: the timer armed by the \<open>change\<close> is still pending after
  \<open>stopWatching\<close>, and when the debounce window has passed it fires and commits a snapshot
  of the file that is no longer watched.
\<close>

theorem C1_commit_after_stop:
  "map t_due (timers armed_state) = [500] \<and>
   isWatching ''p'' ''n'' armed_state \<and>
   \<not> isWatching ''p'' ''n'' stopped_state \<and>
   map l_fileName (fswatchers stopped_state) = [''m''] \<and>
   history (world stopped_state) ''p'' = [] \<and>
   map c_message (history (world (advance 500 stopped_state)) ''p'') = [''[n] auto-snapshot'']"
  by code_simp

text \<open>
  C1, amended: in every state of the process, \<open>stopWatching\<close> for a slug and a file name
  cancels no timer: the pending timers after the call are those before it. It closes
  every watcher that was opened for that slug and file name, and an entry that the table
  still has under their key belongs to another slug; from then on, as long as no
  \<open>startWatching\<close> names the slug and the file name again, no timer is armed for them.
  A timer that was pending at the call still fires when the time reaches its due time: the
  timers due by then fire in the order of their due times, and the callback of this one
  calls \<open>snapshot\<close> for its slug and file path.
\<close>

theorem C1_stop_cancels_no_timer:
  assumes "reachable s"
  shows "timers (stopWatching sl (Some f) s) = timers s \<and>
    (fw \<in> set (fswatchers (stopWatching sl (Some f) s)) \<longrightarrow>
       \<not> (l_slug fw = sl \<and> l_fileName fw = f)) \<and>
    (map_of (watchers (stopWatching sl (Some f) s)) (watch_key sl f) = Some e \<longrightarrow>
       entry_slug e \<noteq> sl) \<and>
    ((\<forall>ev \<in> set es. \<not> starts sl f ev) \<and>
     tm' \<in> set (timers (run es (stopWatching sl (Some f) s))) \<and>
     t_slug tm' = sl \<and> t_fileName tm' = f \<longrightarrow> tm' \<in> set (timers s)) \<and>
    (tm \<in> set (timers s) \<and> t_due tm \<le> clock (world s) + ms \<longrightarrow>
       (let due = sort_key t_due (filter (\<lambda>x. t_due x \<le> clock (world s) + ms) (timers s));
            before = takeWhile (\<lambda>x. t_id x \<noteq> t_id tm) due;
            after = tl (dropWhile (\<lambda>x. t_id x \<noteq> t_id tm) due);
            s1 = foldl (\<lambda>s x. fire x s) (stopWatching sl (Some f) s) before;
            s2 = s1\<lparr>timers := filter (\<lambda>x. t_id x \<noteq> t_id tm) (timers s1),
                    world := (world s1)\<lparr>clock := max (clock (world s1)) (t_due tm)\<rparr>\<rparr>;
            s3 = foldl (\<lambda>s x. fire x s) (settle tm s2) after
        in due = before @ tm # after \<and>
           advance ms (stopWatching sl (Some f) s)
             = s3\<lparr>world := (world s3)\<lparr>clock := clock (world s) + ms\<rparr>\<rparr> \<and>
           world (settle tm s2) = fst (snapshot (t_slug tm) (t_filePath tm) (world s2))))"
proof -
  let ?s' = "stopWatching sl (Some f) s"
  from assms have inv: "watch_inv s" by (rule reachable_watch_inv)
  from assms have tinv: "timer_inv s" by (rule reachable_timer_inv)
  have a: "timers ?s' = timers s" by (simp add: stopWatching_def)
  have wd: "world ?s' = world s" by (simp add: stopWatching_def)
  have closed: "\<forall>fw \<in> set (fswatchers ?s'). \<not> (l_slug fw = sl \<and> l_fileName fw = f)"
    using stopWatching_closes [OF inv] by blast
  then have b: "fw \<in> set (fswatchers ?s') \<longrightarrow> \<not> (l_slug fw = sl \<and> l_fileName fw = f)"
    by blast
  have c: "map_of (watchers ?s') (watch_key sl f) = Some e \<longrightarrow> entry_slug e \<noteq> sl"
    by (auto dest: stopWatching_table)
  have d: "(\<forall>ev \<in> set es. \<not> starts sl f ev) \<and> tm' \<in> set (timers (run es ?s')) \<and>
           t_slug tm' = sl \<and> t_fileName tm' = f \<longrightarrow> tm' \<in> set (timers s)"
  proof
    assume h: "(\<forall>ev \<in> set es. \<not> starts sl f ev) \<and> tm' \<in> set (timers (run es ?s')) \<and>
               t_slug tm' = sl \<and> t_fileName tm' = f"
    then have "\<forall>ev \<in> set es. \<not> starts sl f ev" by blast
    from run_no_rearm [OF closed this] h have "tm' \<in> set (timers ?s')" by blast
    then show "tm' \<in> set (timers s)" by (simp only: a)
  qed
  have e: "tm \<in> set (timers s) \<and> t_due tm \<le> clock (world s) + ms \<longrightarrow>
       (let due = sort_key t_due (filter (\<lambda>x. t_due x \<le> clock (world s) + ms) (timers s));
            before = takeWhile (\<lambda>x. t_id x \<noteq> t_id tm) due;
            after = tl (dropWhile (\<lambda>x. t_id x \<noteq> t_id tm) due);
            s1 = foldl (\<lambda>s x. fire x s) ?s' before;
            s2 = s1\<lparr>timers := filter (\<lambda>x. t_id x \<noteq> t_id tm) (timers s1),
                    world := (world s1)\<lparr>clock := max (clock (world s1)) (t_due tm)\<rparr>\<rparr>;
            s3 = foldl (\<lambda>s x. fire x s) (settle tm s2) after
        in due = before @ tm # after \<and>
           advance ms ?s' = s3\<lparr>world := (world s3)\<lparr>clock := clock (world s) + ms\<rparr>\<rparr> \<and>
           world (settle tm s2) = fst (snapshot (t_slug tm) (t_filePath tm) (world s2)))"
  proof
    assume h: "tm \<in> set (timers s) \<and> t_due tm \<le> clock (world s) + ms"
    define due where "due = sort_key t_due (filter (\<lambda>x. t_due x \<le> clock (world s) + ms) (timers s))"
    define before where "before = takeWhile (\<lambda>x. t_id x \<noteq> t_id tm) due"
    define after where "after = tl (dropWhile (\<lambda>x. t_id x \<noteq> t_id tm) due)"
    define s1 where "s1 = foldl (\<lambda>s x. fire x s) ?s' before"
    define s2 where "s2 = s1\<lparr>timers := filter (\<lambda>x. t_id x \<noteq> t_id tm) (timers s1),
                    world := (world s1)\<lparr>clock := max (clock (world s1)) (t_due tm)\<rparr>\<rparr>"
    define s3 where "s3 = foldl (\<lambda>s x. fire x s) (settle tm s2) after"
    from h have m: "tm \<in> set due" by (simp add: due_def)
    have sub: "set due \<subseteq> set (timers s)" by (auto simp add: due_def)
    from tinv have dist: "distinct (map t_id (timers s))" by (simp add: timer_inv_def)
    from due_split [OF dist m sub] have split: "due = before @ tm # after"
      by (simp only: before_def after_def)
    have "\<forall>x \<in> set before. t_id x \<noteq> t_id tm"
      by (auto simp add: before_def dest: set_takeWhileD)
    moreover from h have "tm \<in> set (timers ?s')" by (simp only: a)
    ultimately have "tm \<in> set (timers s1)"
      unfolding s1_def by (intro fire_loop_keeps)
    then have f1: "fire tm s1 = settle tm s2" by (simp add: fire_def s2_def)
    have "foldl (\<lambda>s x. fire x s) ?s' due = s3"
      unfolding split by (simp add: s3_def f1 [symmetric] s1_def)
    then have adv: "advance ms ?s' = s3\<lparr>world := (world s3)\<lparr>clock := clock (world s) + ms\<rparr>\<rparr>"
      by (simp add: advance_def Let_def a wd due_def)
    from split adv settle_world [of tm s2]
    show "let due = sort_key t_due (filter (\<lambda>x. t_due x \<le> clock (world s) + ms) (timers s));
            before = takeWhile (\<lambda>x. t_id x \<noteq> t_id tm) due;
            after = tl (dropWhile (\<lambda>x. t_id x \<noteq> t_id tm) due);
            s1 = foldl (\<lambda>s x. fire x s) ?s' before;
            s2 = s1\<lparr>timers := filter (\<lambda>x. t_id x \<noteq> t_id tm) (timers s1),
                    world := (world s1)\<lparr>clock := max (clock (world s1)) (t_due tm)\<rparr>\<rparr>;
            s3 = foldl (\<lambda>s x. fire x s) (settle tm s2) after
        in due = before @ tm # after \<and>
           advance ms ?s' = s3\<lparr>world := (world s3)\<lparr>clock := clock (world s) + ms\<rparr>\<rparr> \<and>
           world (settle tm s2) = fst (snapshot (t_slug tm) (t_filePath tm) (world s2))"
      unfolding Let_def due_def [symmetric] before_def [symmetric] after_def [symmetric]
        s1_def [symmetric] s2_def [symmetric] s3_def [symmetric]
      by blast
  qed
  from a b c d e show ?thesis by blast
qed

theorem C1_stop_cancels_no_timer_witness:
  "reachable armed_state \<and>
   timers armed_state = [armed_timer] \<and>
   timers (stopWatching ''p'' (Some ''n'') armed_state) = timers armed_state \<and>
   hd (fswatchers (stopWatching ''p'' (Some ''n'') armed_state))
     \<in> set (fswatchers (stopWatching ''p'' (Some ''n'') armed_state)) \<and>
   \<not> (l_slug (hd (fswatchers (stopWatching ''p'' (Some ''n'') armed_state))) = ''p'' \<and>
      l_fileName (hd (fswatchers (stopWatching ''p'' (Some ''n'') armed_state))) = ''n'') \<and>
   reachable shared_key_state \<and>
   map_of (watchers (stopWatching ''a:b'' (Some ''c'') shared_key_state)) (watch_key ''a:b'' ''c'')
     = Some \<lparr>watcher = 0, filePath = ''/p/b:c'', entry_slug = ''a''\<rparr> \<and>
   entry_slug \<lparr>watcher = 0, filePath = ''/p/b:c'', entry_slug = ''a''\<rparr> \<noteq> ''a:b'' \<and>
   \<not> starts ''p'' ''n'' (ChangeEvent 0) \<and> \<not> starts ''p'' ''n'' (ChangeEvent 1) \<and>
   map t_fileName (timers (run [ChangeEvent 0, ChangeEvent 1]
      (stopWatching ''p'' (Some ''n'') armed_state))) = [''n'', ''m''] \<and>
   armed_timer \<in> set (timers (run [ChangeEvent 0, ChangeEvent 1]
      (stopWatching ''p'' (Some ''n'') armed_state))) \<and>
   armed_timer \<in> set (timers armed_state) \<and>
   t_due armed_timer \<le> clock (world armed_state) + 500 \<and>
   advance 500 (stopWatching ''p'' (Some ''n'') armed_state) =
     (let s3 = settle armed_timer
                 ((stopWatching ''p'' (Some ''n'') armed_state)
                    \<lparr>timers := [], world := (world armed_state)\<lparr>clock := 500\<rparr>\<rparr>)
      in s3\<lparr>world := (world s3)\<lparr>clock := 500\<rparr>\<rparr>) \<and>
   map c_message (history (world (advance 500 (stopWatching ''p'' (Some ''n'') armed_state))) ''p'')
     = [''[n] auto-snapshot'']"
proof -
  let ?s' = "stopWatching ''p'' (Some ''n'') armed_state"
  let ?es = "[ChangeEvent 0, ChangeEvent 1]"
  let ?e = "\<lparr>watcher = 0, filePath = ''/p/b:c'', entry_slug = ''a''\<rparr>"
  have r: "reachable armed_state"
    unfolding armed_state_def by (intro reachable.intros)
  have r2: "reachable shared_key_state"
    unfolding shared_key_state_def by (intro reachable.intros)
  have t: "timers armed_state = [armed_timer]" by code_simp
  have w: "hd (fswatchers ?s') \<in> set (fswatchers ?s')" by code_simp
  have k: "map_of (watchers (stopWatching ''a:b'' (Some ''c'') shared_key_state))
             (watch_key ''a:b'' ''c'') = Some ?e" by code_simp
  have n0: "\<not> starts ''p'' ''n'' (ChangeEvent 0)" and n1: "\<not> starts ''p'' ''n'' (ChangeEvent 1)"
    by (simp_all add: starts_def)
  have ts: "map t_fileName (timers (run ?es ?s')) = [''n'', ''m'']" by code_simp
  have tr: "armed_timer \<in> set (timers (run ?es ?s'))" by code_simp
  have key: "t_slug armed_timer = ''p'' \<and> t_fileName armed_timer = ''n''"
    by (simp add: armed_timer_def)
  have due: "t_due armed_timer \<le> clock (world armed_state) + 500" by code_simp
  have sorted: "sort_key t_due (filter (\<lambda>x. t_due x \<le> clock (world armed_state) + 500)
                  (timers armed_state)) = [armed_timer]" by code_simp
  have c0: "clock (world armed_state) = 0" by code_simp
  have td: "t_due armed_timer = 500" by (simp add: armed_timer_def)
  have wd: "world ?s' = world armed_state" by (simp add: stopWatching_def)
  have msg: "map c_message (history (world (advance 500 ?s')) ''p'') = [''[n] auto-snapshot'']"
    by code_simp
  note th = C1_stop_cancels_no_timer [OF r, where sl = "''p''" and f = "''n''"
      and fw = "hd (fswatchers ?s')" and es = ?es and tm' = armed_timer and tm = armed_timer
      and ms = 500]
  note th2 = C1_stop_cancels_no_timer [OF r2, where sl = "''a:b''" and f = "''c''" and e = ?e]
  from th have a: "timers ?s' = timers armed_state" by blast
  from th w have b: "\<not> (l_slug (hd (fswatchers ?s')) = ''p'' \<and> l_fileName (hd (fswatchers ?s')) = ''n'')"
    by blast
  from th2 k have c: "entry_slug ?e \<noteq> ''a:b''" by blast
  from th n0 n1 tr key have d: "armed_timer \<in> set (timers armed_state)" by simp
  from th d due
  have "let due = sort_key t_due (filter (\<lambda>x. t_due x \<le> clock (world armed_state) + 500) (timers armed_state));
            before = takeWhile (\<lambda>x. t_id x \<noteq> t_id armed_timer) due;
            after = tl (dropWhile (\<lambda>x. t_id x \<noteq> t_id armed_timer) due);
            s1 = foldl (\<lambda>s x. fire x s) ?s' before;
            s2 = s1\<lparr>timers := filter (\<lambda>x. t_id x \<noteq> t_id armed_timer) (timers s1),
                    world := (world s1)\<lparr>clock := max (clock (world s1)) (t_due armed_timer)\<rparr>\<rparr>;
            s3 = foldl (\<lambda>s x. fire x s) (settle armed_timer s2) after
        in due = before @ armed_timer # after \<and>
           advance 500 ?s' = s3\<lparr>world := (world s3)\<lparr>clock := clock (world armed_state) + 500\<rparr>\<rparr> \<and>
           world (settle armed_timer s2) = fst (snapshot (t_slug armed_timer) (t_filePath armed_timer) (world s2))"
    by blast
  then have e: "advance 500 ?s' =
     (let s3 = settle armed_timer (?s'\<lparr>timers := [], world := (world armed_state)\<lparr>clock := 500\<rparr>\<rparr>)
      in s3\<lparr>world := (world s3)\<lparr>clock := 500\<rparr>\<rparr>)"
    unfolding sorted Let_def
    by (simp add: a t wd c0 td)
  from r t a w b r2 k c n0 n1 ts tr d due e msg show ?thesis by blast
qed


end
